theory Spec2Isabelle
  imports Complex_Main
begin

section \<open>Data model (types.ts, constants.ts)\<close>

text \<open>
  \<^verbatim>\<open>export type Player = 'tiger' | 'goat';\<close>
\<close>

datatype Player = Tiger | Goat

text \<open>
  A board is the JavaScript object \<^verbatim>\<open>Record<number, Player>\<close>. It is embedded as an
  association list from node ids to pieces: \<open>map_of board n\<close> is \<^verbatim>\<open>board[n]\<close>
  (\<open>None\<close> for \<^verbatim>\<open>undefined\<close>, the only falsy value a board holds),
  \<open>map fst board\<close> is \<^verbatim>\<open>Object.keys(board).map(Number)\<close> and the list itself is
  \<^verbatim>\<open>Object.entries(board)\<close>. Node ids are JavaScript numbers, embedded as \<open>int\<close>.
  An object lists its integer keys in ascending order, each of them once; \<open>wf_board\<close>
  says so of an association list.
\<close>

type_synonym board = "(int \<times> Player) list"

definition wf_board :: "board \<Rightarrow> bool" where
  "wf_board b = sorted_wrt (<) (map fst b)"

text \<open>\<^verbatim>\<open>delete board[k]\<close>\<close>

definition board_delete :: "int \<Rightarrow> board \<Rightarrow> board" where
  "board_delete k b = filter (\<lambda>p. fst p \<noteq> k) b"

text \<open>
  \<^verbatim>\<open>board[k] = v\<close>: an existing key keeps its place, a new integer key is listed in
  ascending position.
\<close>

fun board_put :: "int \<Rightarrow> Player \<Rightarrow> board \<Rightarrow> board" where
  "board_put k v [] = [(k, v)]"
| "board_put k v ((k', v') # b) =
     (if k < k' then (k, v) # (k', v') # b
      else if k = k' then (k, v) # b
      else (k', v') # board_put k v b)"

text \<open>
  Counts and scores are JavaScript numbers holding integers, embedded as \<open>int\<close>. A
  JavaScript number holds every integer up to 2^53 in absolute value exactly and rounds
  beyond, so the embedding computes what the code computes as long as the operands and
  the results stay in that range. \<open>isSafeInteger\<close> is \<^verbatim>\<open>Number.isSafeInteger\<close> on
  integers: at most \<^verbatim>\<open>Number.MAX_SAFE_INTEGER\<close> = 2^53 - 1 in absolute value.
\<close>

definition isSafeInteger :: "int \<Rightarrow> bool" where
  "isSafeInteger n = (- (2 ^ 53 - 1) \<le> n \<and> n \<le> 2 ^ 53 - 1)"

text \<open>\<^verbatim>\<open>GOATS_TOTAL = 18\<close>, \<^verbatim>\<open>GOATS_TO_WIN = 8\<close>\<close>

definition GOATS_TOTAL :: int where
  "GOATS_TOTAL = 18"

definition GOATS_TO_WIN :: int where
  "GOATS_TO_WIN = 8"

text \<open>The ids of \<^verbatim>\<open>NODES\<close>, in the order of the array (the coordinates are presentation only).\<close>

definition NODES :: "int list" where
  "NODES = [0, 1, 2, 3, 4, 5, 6, 7, 8, 9, 10, 11, 12, 13, 14, 15, 16, 17, 18, 19, 20,
            21, 22, 23]"

definition ADJACENCY_table :: "(int \<times> int list) list" where
  "ADJACENCY_table =
    [(0, [2, 3, 4]),
     (1, [2, 6]), (2, [1, 3, 0, 7]), (3, [2, 4, 0, 8]), (4, [3, 5, 0, 9]), (5, [4, 10]),
     (6, [1, 7]), (7, [6, 8, 2, 12]), (8, [7, 9, 3, 13]), (9, [8, 10, 4, 14]), (10, [5, 9]),
     (11, [12, 16]), (12, [11, 13, 7, 17]), (13, [12, 14, 8, 18]), (14, [13, 15, 9, 19]),
     (15, [14, 20]),
     (16, [11, 17]), (17, [16, 18, 12, 21]), (18, [17, 19, 13, 22]), (19, [18, 20, 14, 23]),
     (20, [15, 19]),
     (21, [17, 22]), (22, [18, 21, 23]), (23, [22, 19])]"

text \<open>\<^verbatim>\<open>ADJACENCY[id] || []\<close>\<close>

definition ADJACENCY :: "int \<Rightarrow> int list" where
  "ADJACENCY nid = (case map_of ADJACENCY_table nid of None \<Rightarrow> [] | Some ns \<Rightarrow> ns)"

text \<open>\<^verbatim>\<open>JUMP_PATHS\<close>: [Start, Middle (Jumped), End]\<close>

definition JUMP_PATHS :: "(int \<times> int \<times> int) list" where
  "JUMP_PATHS =
    [(0, 3, 8), (3, 8, 13), (8, 13, 18), (13, 18, 22),
     (0, 2, 7), (2, 7, 12), (7, 12, 17), (12, 17, 21),
     (0, 4, 9), (4, 9, 14), (9, 14, 19), (14, 19, 23),
     (1, 2, 3), (2, 3, 4), (3, 4, 5), (6, 7, 8), (7, 8, 9), (8, 9, 10),
     (11, 12, 13), (12, 13, 14), (13, 14, 15), (16, 17, 18), (17, 18, 19), (18, 19, 20),
     (21, 22, 23)]"

definition INITIAL_BOARD :: board where
  "INITIAL_BOARD = [(0, Tiger), (3, Tiger), (8, Tiger), (13, Tiger)]"

text \<open>
  \<^verbatim>\<open>interface AIMove { from?: number; to: number }\<close>: \<open>move_from = None\<close> is a
  placement.
\<close>

record AIMove =
  move_from :: "int option"
  move_to :: int

section \<open>Core rules (services/gameLogic.ts)\<close>

text \<open>
  The body of the \<^verbatim>\<open>JUMP_PATHS.forEach\<close> of \<^verbatim>\<open>getValidMoves\<close>: the two tests of one
  path, each pushing onto \<open>moves\<close>.
\<close>

definition jumpStep :: "int \<Rightarrow> board \<Rightarrow> int \<times> int \<times> int \<Rightarrow> int list \<Rightarrow> int list" where
  "jumpStep nid b path moves =
     (case path of (start, middle, end') \<Rightarrow>
        let moves1 = (if start = nid \<and> map_of b middle = Some Goat \<and> map_of b end' = None
                      then moves @ [end'] else moves)
        in (if end' = nid \<and> map_of b middle = Some Goat \<and> map_of b start = None
            then moves1 @ [start] else moves1))"

definition getValidMoves :: "int \<Rightarrow> Player \<Rightarrow> board \<Rightarrow> int \<Rightarrow> int list" where
  "getValidMoves nid turn b goatsPlaced =
     (if turn = Goat \<and> goatsPlaced < GOATS_TOTAL then []
      else
        let moves = filter (\<lambda>n. map_of b n = None) (ADJACENCY nid)
        in if turn = Tiger then fold (jumpStep nid b) JUMP_PATHS moves else moves)"

record WinState =
  gameOver :: bool
  winner :: "Player option"
  reason :: string

text \<open>
  \<^verbatim>\<open>checkWinCondition\<close> as the AI module defines it (the definition with the guard for a
  board without tigers).
\<close>

definition checkWinCondition :: "board \<Rightarrow> int \<Rightarrow> Player \<Rightarrow> WinState" where
  "checkWinCondition b goatsCaptured turn =
     (if goatsCaptured \<ge> GOATS_TO_WIN
      then \<lparr>gameOver = True, winner = Some Tiger, reason = ''Tigers captured 8 goats!''\<rparr>
      else
        let tigers = filter (\<lambda>(k, type). type = Tiger) b
        in if length tigers = 0 then \<lparr>gameOver = False, winner = None, reason = ''''\<rparr>
           else
             let canTigerMove =
                   list_ex (\<lambda>(nid, type). length (getValidMoves nid Tiger b GOATS_TOTAL) > 0) tigers
             in if \<not> canTigerMove
                then \<lparr>gameOver = True, winner = Some Goat, reason = ''Tigers are trapped!''\<rparr>
                else \<lparr>gameOver = False, winner = None, reason = ''''\<rparr>)"

text \<open>
  The other definition of \<^verbatim>\<open>checkWinCondition\<close> in the repository (the first one of
  services/gameLogic.ts): the same function without the guard.
\<close>

definition checkWinCondition_unguarded :: "board \<Rightarrow> int \<Rightarrow> Player \<Rightarrow> WinState" where
  "checkWinCondition_unguarded b goatsCaptured turn =
     (if goatsCaptured \<ge> GOATS_TO_WIN
      then \<lparr>gameOver = True, winner = Some Tiger, reason = ''Tigers captured 8 goats!''\<rparr>
      else
        let tigers = filter (\<lambda>(k, type). type = Tiger) b;
            canTigerMove =
              list_ex (\<lambda>(nid, type). length (getValidMoves nid Tiger b GOATS_TOTAL) > 0) tigers
        in if \<not> canTigerMove
           then \<lparr>gameOver = True, winner = Some Goat, reason = ''Tigers are trapped!''\<rparr>
           else \<lparr>gameOver = False, winner = None, reason = ''''\<rparr>)"

text \<open>
  \<^verbatim>\<open>JUMP_PATHS.find(p => (p[0] === from && p[2] === to) || (p[2] === from && p[0] === to))\<close>
\<close>

definition findJumpPath :: "int \<Rightarrow> int \<Rightarrow> (int \<times> int \<times> int) option" where
  "findJumpPath f t =
     find (\<lambda>(p0, p1, p2). (p0 = f \<and> p2 = t) \<or> (p2 = f \<and> p0 = t)) JUMP_PATHS"

text \<open>
  \<^verbatim>\<open>simulateMove\<close> returns the pair (nextBoard, nextCaptured). \<^verbatim>\<open>nextCaptured++\<close> is
  \<open>+ 1\<close> on \<open>int\<close>, which is what the code computes for a safe integer count.
\<close>

definition simulateMove :: "board \<Rightarrow> AIMove \<Rightarrow> Player \<Rightarrow> int \<Rightarrow> board \<times> int" where
  "simulateMove b move role currentCaptured =
     (let nextBoard0 = (case move_from move of None \<Rightarrow> b | Some f \<Rightarrow> board_delete f b);
          nextBoard1 = board_put (move_to move) role nextBoard0
      in case move_from move of
           None \<Rightarrow> (nextBoard1, currentCaptured)
         | Some f \<Rightarrow>
             if role = Tiger then
               (case findJumpPath f (move_to move) of
                  None \<Rightarrow> (nextBoard1, currentCaptured)
                | Some (p0, capturedId, p2) \<Rightarrow>
                    if map_of nextBoard1 capturedId = Some Goat
                    then (board_delete capturedId nextBoard1, currentCaptured + 1)
                    else (nextBoard1, currentCaptured))
             else (nextBoard1, currentCaptured))"

text \<open>
  \<^verbatim>\<open>getAllPossibleMoves\<close>: one placement per empty node of \<^verbatim>\<open>NODES\<close> while the goat
  is placing, otherwise every destination of every piece of the role, piece by piece in
  the order of \<^verbatim>\<open>Object.keys(board)\<close>.
\<close>

definition getAllPossibleMoves :: "board \<Rightarrow> Player \<Rightarrow> int \<Rightarrow> AIMove list" where
  "getAllPossibleMoves b role goatsPlaced =
     (if role = Goat \<and> goatsPlaced < GOATS_TOTAL
      then map (\<lambda>n. \<lparr>move_from = None, move_to = n\<rparr>) (filter (\<lambda>n. map_of b n = None) NODES)
      else
        let pieces = filter (\<lambda>k. map_of b k = Some role) (map fst b)
        in concat (map (\<lambda>f. map (\<lambda>t. \<lparr>move_from = Some f, move_to = t\<rparr>)
                                  (getValidMoves f role b goatsPlaced)) pieces))"

definition isReverseMove :: "AIMove \<Rightarrow> AIMove \<Rightarrow> bool" where
  "isReverseMove currMove prevMove =
     (case (move_from currMove, move_from prevMove) of
        (Some cf, Some pf) \<Rightarrow> cf = move_to prevMove \<and> move_to currMove = pf
      | _ \<Rightarrow> False)"

definition isJump :: "board \<Rightarrow> AIMove \<Rightarrow> bool" where
  "isJump b move =
     (case move_from move of
        None \<Rightarrow> False
      | Some f \<Rightarrow> findJumpPath f (move_to move) \<noteq> None)"

definition centerScore :: "int \<Rightarrow> int" where
  "centerScore nid =
     (if nid \<in> set [12, 13, 14, 8] then 2 else if nid \<in> set [2, 3, 4, 18] then 1 else 0)"

text \<open>The comparator handed to \<^verbatim>\<open>moves.sort\<close>.\<close>

definition compareMoves :: "board \<Rightarrow> Player \<Rightarrow> AIMove \<Rightarrow> AIMove \<Rightarrow> int" where
  "compareMoves b role x y =
     (if role = Tiger \<and> isJump b x \<and> \<not> isJump b y then - 1
      else if role = Tiger \<and> \<not> isJump b x \<and> isJump b y then 1
      else centerScore (move_to y) - centerScore (move_to x))"

text \<open>
  \<^verbatim>\<open>Array.prototype.sort\<close> is a stable sort; it is embedded as the insertion sort that
  puts an element before the first later element it does not have to follow.
\<close>

fun insertMove :: "(AIMove \<Rightarrow> AIMove \<Rightarrow> int) \<Rightarrow> AIMove \<Rightarrow> AIMove list \<Rightarrow> AIMove list" where
  "insertMove cmp x [] = [x]"
| "insertMove cmp x (y # ys) =
     (if cmp x y \<le> 0 then x # y # ys else y # insertMove cmp x ys)"

definition sortMovesForPruning :: "AIMove list \<Rightarrow> board \<Rightarrow> Player \<Rightarrow> AIMove list" where
  "sortMovesForPruning moves b role = foldr (insertMove (compareMoves b role)) moves []"

section \<open>Heuristic evaluation\<close>

text \<open>
  The body of \<^verbatim>\<open>tigers.forEach\<close> in \<^verbatim>\<open>evaluatePosition\<close>, on the three counters
  (tigerMobility, trappedTigers, captureOpportunities).
\<close>

definition tigerStep :: "board \<Rightarrow> int \<Rightarrow> int \<Rightarrow> int \<times> int \<times> int \<Rightarrow> int \<times> int \<times> int" where
  "tigerStep b goatsPlaced tId acc =
     (case acc of (tigerMobility, trappedTigers, captureOpportunities) \<Rightarrow>
        let moves = getValidMoves tId Tiger b goatsPlaced
        in (tigerMobility + int (length moves),
            (if length moves = 0 then trappedTigers + 1 else trappedTigers),
            fold (\<lambda>to' co.
                    if list_ex (\<lambda>(p0, p1, p2). (p0 = tId \<and> p2 = to') \<or> (p2 = tId \<and> p0 = to'))
                         JUMP_PATHS
                    then co + 1 else co)
                 moves captureOpportunities))"

text \<open>The nested \<^verbatim>\<open>for (i) for (j = i + 1)\<close> loops over the tigers.\<close>

fun coordinationCount :: "int list \<Rightarrow> int" where
  "coordinationCount [] = 0"
| "coordinationCount (t # ts) =
     fold (\<lambda>u c. if u \<in> set (ADJACENCY t) then c + 1 else c) ts 0 + coordinationCount ts"

text \<open>
  \<^verbatim>\<open>evaluatePosition\<close>. The products and sums are those of \<open>int\<close>, which is what the
  code computes while the capture term and the score stay within 2^53 in absolute value.
\<close>

definition evaluatePosition :: "board \<Rightarrow> Player \<Rightarrow> int \<Rightarrow> int \<Rightarrow> int" where
  "evaluatePosition b aiRole goatsCaptured goatsPlaced =
     (let tigers = filter (\<lambda>k. map_of b k = Some Tiger) (map fst b);
          goats = filter (\<lambda>k. map_of b k = Some Goat) (map fst b);
          score0 = goatsCaptured * 2000;
          score1 = (if goatsCaptured \<ge> 7 then score0 + 5000 else score0)
      in case fold (tigerStep b goatsPlaced) tigers (0, 0, 0) of
           (tigerMobility, trappedTigers, captureOpportunities) \<Rightarrow>
             if aiRole = Tiger then
               let score2 = score1 + captureOpportunities * 500;
                   score3 = score2 - trappedTigers * 1500;
                   score4 = score3 + tigerMobility * 30;
                   coordination = coordinationCount tigers
               in score4 + coordination * 60
             else
               let score2 = 0 - goatsCaptured * 2500;
                   score3 = score2 + trappedTigers * 1500;
                   score4 = score3 - tigerMobility * 50;
                   score5 = score4 - captureOpportunities * 1000;
                   connections =
                     fold (\<lambda>g c. fold (\<lambda>n c'. if map_of b n = Some Goat then c' + 1 else c')
                                       (ADJACENCY g) c)
                          goats 0;
                   score6 = score5 + connections * 40
               in fold (\<lambda>g sc. if g \<in> set [12, 13, 14, 8, 18] then sc + 70 else sc) goats score6)"

section \<open>Placement heuristic\<close>

text \<open>
  JavaScript numbers that start at \<^verbatim>\<open>-Infinity\<close> or \<^verbatim>\<open>Infinity\<close>.
\<close>

datatype 'a extended = MinusInfinity | Finite 'a | PlusInfinity

fun ext_le :: "'a::linorder extended \<Rightarrow> 'a extended \<Rightarrow> bool" where
  "ext_le MinusInfinity y = True"
| "ext_le (Finite x) MinusInfinity = False"
| "ext_le (Finite x) (Finite y) = (x \<le> y)"
| "ext_le (Finite x) PlusInfinity = True"
| "ext_le PlusInfinity PlusInfinity = True"
| "ext_le PlusInfinity y = False"

definition ext_less :: "'a::linorder extended \<Rightarrow> 'a extended \<Rightarrow> bool" where
  "ext_less x y = (\<not> ext_le y x)"

definition ext_max :: "'a::linorder extended \<Rightarrow> 'a extended \<Rightarrow> 'a extended" where
  "ext_max x y = (if ext_le x y then y else x)"

definition ext_min :: "'a::linorder extended \<Rightarrow> 'a extended \<Rightarrow> 'a extended" where
  "ext_min x y = (if ext_le x y then x else y)"

text \<open>The safety check of \<^verbatim>\<open>getBestPlacementGoat\<close> (the loop that sets \<^verbatim>\<open>immediateDanger\<close>).\<close>

definition immediateDanger :: "board \<Rightarrow> int \<Rightarrow> bool" where
  "immediateDanger b nodeId =
     list_ex (\<lambda>(start, middle, end').
                middle = nodeId \<and>
                ((map_of b start = Some Tiger \<and> map_of b end' = None) \<or>
                 (map_of b end' = Some Tiger \<and> map_of b start = None)))
             JUMP_PATHS"

text \<open>The score of one empty node before the random term is added.\<close>

definition placementScore :: "board \<Rightarrow> int \<Rightarrow> int" where
  "placementScore b nodeId =
     (if immediateDanger b nodeId then 0 - 10000
      else
        let adjTigers = fold (\<lambda>n c. if map_of b n = Some Tiger then c + 1 else c) (ADJACENCY nodeId) 0;
            score1 = 0 + adjTigers * 200;
            adjGoats = fold (\<lambda>n c. if map_of b n = Some Goat then c + 1 else c) (ADJACENCY nodeId) 0;
            score2 = score1 + adjGoats * 50;
            score3 = (if nodeId \<in> set [8, 12, 13, 14, 18] then score2 + 100 else score2)
        in (if nodeId \<in> set [2, 3, 4, 7, 9] then score3 + 60 else score3))"

text \<open>
  \<^verbatim>\<open>emptyNodes.forEach\<close>: the state is (bestNode, maxScore); \<open>random k\<close> is the value of the
  \<open>k\<close>-th call of \<^verbatim>\<open>Math.random()\<close>, a number in [0, 1).
\<close>

fun placementLoop ::
  "board \<Rightarrow> (nat \<Rightarrow> real) \<Rightarrow> int list \<Rightarrow> nat \<Rightarrow> int \<times> real extended \<Rightarrow> int \<times> real extended" where
  "placementLoop b random [] k st = st"
| "placementLoop b random (nodeId # rest) k (bestNode, maxScore) =
     (let score = real_of_int (placementScore b nodeId) + random k * 10
      in placementLoop b random rest (Suc k)
           (if ext_less maxScore (Finite score) then (nodeId, Finite score)
            else (bestNode, maxScore)))"

text \<open>\<^verbatim>\<open>getBestPlacementGoat\<close> returns \<^verbatim>\<open>{ to: bestNode }\<close>; \<open>bestNode\<close> starts at -1.\<close>

definition getBestPlacementGoat :: "board \<Rightarrow> (nat \<Rightarrow> real) \<Rightarrow> AIMove" where
  "getBestPlacementGoat b random =
     (let emptyNodes = filter (\<lambda>n. map_of b n = None) NODES
      in \<lparr>move_from = None,
          move_to = fst (placementLoop b random emptyNodes 0 (- 1, MinusInfinity))\<rparr>)"

section \<open>Search (minimax with alpha-beta pruning)\<close>

text \<open>The repetition check at the head of both loop bodies: true when the loop continues.\<close>

definition repetitionSkip :: "AIMove option \<Rightarrow> nat \<Rightarrow> AIMove \<Rightarrow> bool" where
  "repetitionSkip previousMove movesLength move =
     (case previousMove of
        None \<Rightarrow> False
      | Some prevMove \<Rightarrow> isReverseMove move prevMove \<and> movesLength > 1)"

text \<open>
  The two \<^verbatim>\<open>for (const move of moves)\<close> loops of \<^verbatim>\<open>minimax\<close>. \<open>child move alpha beta\<close>
  is the recursive call for \<open>move\<close> under the current window, \<open>movesLength\<close> is
  \<^verbatim>\<open>moves.length\<close>; the result is \<open>maxEval\<close> (\<open>minEval\<close>) when the loop ends or breaks.
\<close>

fun maxLoop ::
  "(AIMove \<Rightarrow> int extended \<Rightarrow> int extended \<Rightarrow> int) \<Rightarrow> AIMove option \<Rightarrow> nat \<Rightarrow>
   AIMove list \<Rightarrow> int extended \<Rightarrow> int extended \<Rightarrow> int extended \<Rightarrow> int extended" where
  "maxLoop child previousMove movesLength [] alpha beta maxEval = maxEval"
| "maxLoop child previousMove movesLength (move # rest) alpha beta maxEval =
     (if repetitionSkip previousMove movesLength move
      then maxLoop child previousMove movesLength rest alpha beta maxEval
      else
        let evalScore = child move alpha beta;
            maxEval' = ext_max maxEval (Finite evalScore);
            alpha' = ext_max alpha (Finite evalScore)
        in if ext_le beta alpha' then maxEval'
           else maxLoop child previousMove movesLength rest alpha' beta maxEval')"

fun minLoop ::
  "(AIMove \<Rightarrow> int extended \<Rightarrow> int extended \<Rightarrow> int) \<Rightarrow> AIMove option \<Rightarrow> nat \<Rightarrow>
   AIMove list \<Rightarrow> int extended \<Rightarrow> int extended \<Rightarrow> int extended \<Rightarrow> int extended" where
  "minLoop child previousMove movesLength [] alpha beta minEval = minEval"
| "minLoop child previousMove movesLength (move # rest) alpha beta minEval =
     (if repetitionSkip previousMove movesLength move
      then minLoop child previousMove movesLength rest alpha beta minEval
      else
        let evalScore = child move alpha beta;
            minEval' = ext_min minEval (Finite evalScore);
            beta' = ext_min beta (Finite evalScore)
        in if ext_le beta' alpha then minEval'
           else minLoop child previousMove movesLength rest alpha beta' minEval')"

fun minimax ::
  "board \<Rightarrow> nat \<Rightarrow> int extended \<Rightarrow> int extended \<Rightarrow> bool \<Rightarrow> Player \<Rightarrow> int \<Rightarrow> int \<Rightarrow>
   AIMove option \<Rightarrow> int" where
  "minimax b depth alpha beta isMaximizing aiRole goatsPlaced goatsCaptured previousMove =
     (let opponent = (if aiRole = Tiger then Goat else Tiger);
          currentTurn = (if isMaximizing then aiRole else opponent);
          winState = checkWinCondition b goatsCaptured currentTurn
      in if gameOver winState then
           (if winner winState = Some aiRole then 20000 + int depth else - 20000 - int depth)
         else if depth = 0 then evaluatePosition b aiRole goatsCaptured goatsPlaced
         else
           let moves = sortMovesForPruning (getAllPossibleMoves b currentTurn goatsPlaced)
                         b currentTurn
           in if length moves = 0 then (if currentTurn = aiRole then - 20000 else 20000)
              else if isMaximizing then
                (case maxLoop
                        (\<lambda>move alpha' beta'.
                           case simulateMove b move currentTurn goatsCaptured of
                             (nextBoard, nextCaptured) \<Rightarrow>
                               minimax nextBoard (depth - 1) alpha' beta' False aiRole
                                 (goatsPlaced +
                                    (if currentTurn = Goat \<and> move_from move = None then 1 else 0))
                                 nextCaptured (Some move))
                        previousMove (length moves) moves alpha beta MinusInfinity of
                   Finite maxEval \<Rightarrow> maxEval
                 | _ \<Rightarrow> - 10000)
              else
                (case minLoop
                        (\<lambda>move alpha' beta'.
                           case simulateMove b move currentTurn goatsCaptured of
                             (nextBoard, nextCaptured) \<Rightarrow>
                               minimax nextBoard (depth - 1) alpha' beta' True aiRole
                                 (goatsPlaced +
                                    (if currentTurn = Goat \<and> move_from move = None then 1 else 0))
                                 nextCaptured (Some move))
                        previousMove (length moves) moves alpha beta PlusInfinity of
                   Finite minEval \<Rightarrow> minEval
                 | _ \<Rightarrow> 10000))"

declare minimax.simps [simp del]

text \<open>
  The recursive call of \<^verbatim>\<open>minimax\<close> for one candidate move, as written in both loops:
  the move is simulated and the resulting position searched one ply less deep.
\<close>

definition minimaxChild ::
  "board \<Rightarrow> nat \<Rightarrow> Player \<Rightarrow> Player \<Rightarrow> int \<Rightarrow> int \<Rightarrow> bool \<Rightarrow>
   AIMove \<Rightarrow> int extended \<Rightarrow> int extended \<Rightarrow> int" where
  "minimaxChild b depth currentTurn aiRole goatsPlaced goatsCaptured nextMaximizing move alpha beta =
     (case simulateMove b move currentTurn goatsCaptured of
        (nextBoard, nextCaptured) \<Rightarrow>
          minimax nextBoard (depth - 1) alpha beta nextMaximizing aiRole
            (goatsPlaced + (if currentTurn = Goat \<and> move_from move = None then 1 else 0))
            nextCaptured (Some move))"


section \<open>Playing a game\<close>

text \<open>
  The part of \<^verbatim>\<open>GameState\<close> the rules read and write. A game starts as the application
  sets it up: \<^verbatim>\<open>INITIAL_BOARD\<close>, the goat to move, nothing placed, nothing captured.
\<close>

record GameState =
  gs_board :: board
  gs_turn :: Player
  gs_goatsPlaced :: int
  gs_goatsCaptured :: int

definition initialState :: GameState where
  "initialState =
     \<lparr>gs_board = INITIAL_BOARD, gs_turn = Goat, gs_goatsPlaced = 0, gs_goatsCaptured = 0\<rparr>"

text \<open>
  One move of the side to move: the board and the captured count come from
  \<^verbatim>\<open>simulateMove\<close>, a placement increments the placed count (as the callers of
  \<^verbatim>\<open>simulateMove\<close> do), and the turn passes to the other side.
\<close>

definition playMove :: "GameState \<Rightarrow> AIMove \<Rightarrow> GameState" where
  "playMove s move =
     (case simulateMove (gs_board s) move (gs_turn s) (gs_goatsCaptured s) of
        (nextBoard, nextCaptured) \<Rightarrow>
          \<lparr>gs_board = nextBoard,
           gs_turn = (if gs_turn s = Tiger then Goat else Tiger),
           gs_goatsPlaced =
             gs_goatsPlaced s + (if gs_turn s = Goat \<and> move_from move = None then 1 else 0),
           gs_goatsCaptured = nextCaptured\<rparr>)"

text \<open>
  The states of a game: the initial one, and every state one legal move (a member of
  \<^verbatim>\<open>getAllPossibleMoves\<close> for the side to move) after a state of a game.
\<close>

inductive reachable :: "GameState \<Rightarrow> bool" where
  reachable_init: "reachable initialState"
| reachable_move:
    "reachable s \<Longrightarrow>
     move \<in> set (getAllPossibleMoves (gs_board s) (gs_turn s) (gs_goatsPlaced s)) \<Longrightarrow>
     reachable (playMove s move)"

definition tigerCount :: "board \<Rightarrow> nat" where
  "tigerCount b = length (filter (\<lambda>(k, type). type = Tiger) b)"

section \<open>The properties, in the words of the specification\<close>

text \<open>
  A capturing jump: the moving side is the tiger, the move has a source, the pair
  (source, destination) matches a Jump Path in either orientation, and the middle node
  of that path holds a goat.
\<close>

definition capturingJump :: "board \<Rightarrow> AIMove \<Rightarrow> Player \<Rightarrow> bool" where
  "capturingJump b move role =
     (role = Tiger \<and>
      (case move_from move of
         None \<Rightarrow> False
       | Some f \<Rightarrow>
           (\<exists>(s, m, e) \<in> set JUMP_PATHS.
              ((s = f \<and> e = move_to move) \<or> (e = f \<and> s = move_to move)) \<and>
              map_of b m = Some Goat)))"

text \<open>
  The quantities of the goat's score. \<open>tigersOf\<close> and \<open>goatsOf\<close> are the nodes holding a
  tiger (a goat); \<open>trappedCount\<close> is the number of tigers with no legal move,
  \<open>totalMobility\<close> the sum of the tigers' legal-move counts, \<open>captureOpportunitiesCount\<close>
  the number of available jump destinations over all tigers, \<open>adjacentGoatPairs\<close> the
  number of adjacent pairs of goats, each unordered pair counted once, and
  \<open>centralGoats\<close> the number of goats on the nodes 12, 13, 14, 8 and 18.
  \<open>goatScoreWith connections\<close> is the score formula for a given value of
  \<open>connections\<close>.
\<close>

definition tigersOf :: "board \<Rightarrow> int list" where
  "tigersOf b = filter (\<lambda>k. map_of b k = Some Tiger) (map fst b)"

definition goatsOf :: "board \<Rightarrow> int list" where
  "goatsOf b = filter (\<lambda>k. map_of b k = Some Goat) (map fst b)"

definition trappedCount :: "board \<Rightarrow> int \<Rightarrow> int" where
  "trappedCount b goatsPlaced =
     int (length (filter (\<lambda>t. getValidMoves t Tiger b goatsPlaced = []) (tigersOf b)))"

definition totalMobility :: "board \<Rightarrow> int \<Rightarrow> int" where
  "totalMobility b goatsPlaced =
     sum_list (map (\<lambda>t. int (length (getValidMoves t Tiger b goatsPlaced))) (tigersOf b))"

definition jumpDestinationCount :: "board \<Rightarrow> int \<Rightarrow> nat" where
  "jumpDestinationCount b t =
     length (filter (\<lambda>(s, m, e). s = t \<and> map_of b m = Some Goat \<and> map_of b e = None) JUMP_PATHS) +
     length (filter (\<lambda>(s, m, e). e = t \<and> map_of b m = Some Goat \<and> map_of b s = None) JUMP_PATHS)"

definition captureOpportunitiesCount :: "board \<Rightarrow> int" where
  "captureOpportunitiesCount b = sum_list (map (\<lambda>t. int (jumpDestinationCount b t)) (tigersOf b))"

definition adjacentGoatPairs :: "board \<Rightarrow> int" where
  "adjacentGoatPairs b =
     int (length (filter (\<lambda>(g, h). g < h \<and> h \<in> set (ADJACENCY g))
                    (List.product (goatsOf b) (goatsOf b))))"

definition centralGoats :: "board \<Rightarrow> int" where
  "centralGoats b = int (length (filter (\<lambda>g. g \<in> {12, 13, 14, 8, 18}) (goatsOf b)))"

definition goatScoreWith :: "int \<Rightarrow> board \<Rightarrow> int \<Rightarrow> int \<Rightarrow> int" where
  "goatScoreWith connections b goatsCaptured goatsPlaced =
     - (goatsCaptured * 2500) + trappedCount b goatsPlaced * 1500
     - totalMobility b goatsPlaced * 50 - captureOpportunitiesCount b * 1000
     + connections * 40 + 70 * centralGoats b"

text \<open>
  The nodes a jump from \<open>nid\<close> can land on, whatever the board: the other end of every
  Jump Path that starts or ends at \<open>nid\<close>.
\<close>

definition jumpEnds :: "int \<Rightarrow> int list" where
  "jumpEnds nid =
     concat (map (\<lambda>(start, middle, end').
                    (if start = nid then [end'] else []) @ (if end' = nid then [start] else []))
                 JUMP_PATHS)"

text \<open>
  The anti-repetition filter. A move swaps the previous move when its source is the
  previous move's destination and its destination the previous move's source. The
  surviving candidates of a ply are the candidates that do not swap the previous move,
  and a candidate that is the only one of its ply. \<open>alphaBetaMax\<close> and \<open>alphaBetaMin\<close>
  are the maximizing and the minimizing alpha-beta loops with no filter at all: every
  candidate is evaluated in turn until the window closes.
\<close>

definition swapsPrevious :: "AIMove option \<Rightarrow> AIMove \<Rightarrow> bool" where
  "swapsPrevious previousMove move =
     (case previousMove of
        None \<Rightarrow> False
      | Some prevMove \<Rightarrow>
          move_from move = Some (move_to prevMove) \<and> move_from prevMove = Some (move_to move))"

definition survivingCandidates :: "AIMove option \<Rightarrow> AIMove list \<Rightarrow> AIMove list" where
  "survivingCandidates previousMove moves =
     filter (\<lambda>move. if moves = [move] then True else \<not> swapsPrevious previousMove move) moves"

fun alphaBetaMax ::
  "(AIMove \<Rightarrow> int extended \<Rightarrow> int extended \<Rightarrow> int) \<Rightarrow> AIMove list \<Rightarrow>
   int extended \<Rightarrow> int extended \<Rightarrow> int extended \<Rightarrow> int extended" where
  "alphaBetaMax child [] alpha beta best = best"
| "alphaBetaMax child (move # rest) alpha beta best =
     (let v = child move alpha beta;
          best' = ext_max best (Finite v);
          alpha' = ext_max alpha (Finite v)
      in if ext_le beta alpha' then best' else alphaBetaMax child rest alpha' beta best')"

fun alphaBetaMin ::
  "(AIMove \<Rightarrow> int extended \<Rightarrow> int extended \<Rightarrow> int) \<Rightarrow> AIMove list \<Rightarrow>
   int extended \<Rightarrow> int extended \<Rightarrow> int extended \<Rightarrow> int extended" where
  "alphaBetaMin child [] alpha beta best = best"
| "alphaBetaMin child (move # rest) alpha beta best =
     (let v = child move alpha beta;
          best' = ext_min best (Finite v);
          beta' = ext_min beta (Finite v)
      in if ext_le beta' alpha then best' else alphaBetaMin child rest alpha beta' best')"

section \<open>Facts about the board operations\<close>

lemma map_of_board_delete: "map_of (board_delete k b) = (map_of b)(k := None)"
  by (induction b) (auto simp: board_delete_def fun_eq_iff)

lemma map_of_board_put: "map_of (board_put k v b) = (map_of b)(k \<mapsto> v)"
  by (induction b) (auto simp: fun_eq_iff)

lemma keys_board_delete: "map fst (board_delete k b) = filter (\<lambda>n. n \<noteq> k) (map fst b)"
  by (induction b) (auto simp: board_delete_def)

lemma wf_board_distinct: "wf_board b \<Longrightarrow> distinct (map fst b)"
  by (simp add: wf_board_def strict_sorted_iff)

lemma wf_board_delete: "wf_board b \<Longrightarrow> wf_board (board_delete k b)"
  by (simp add: wf_board_def keys_board_delete sorted_wrt_filter)

lemma set_keys_board_put: "fst ` set (board_put k v b) = insert k (fst ` set b)"
  by (induction k v b rule: board_put.induct) auto

lemma wf_board_put: "wf_board b \<Longrightarrow> wf_board (board_put k v b)"
proof (induction k v b rule: board_put.induct)
  case (1 k v)
  then show ?case by (simp add: wf_board_def)
next
  case (2 k v k' v' b)
  from "2.prems" have above: "\<forall>n \<in> fst ` set b. k' < n" and wf: "wf_board b"
    by (auto simp: wf_board_def)
  show ?case
  proof (cases "k < k'")
    case True
    with "2.prems" show ?thesis by (auto simp: wf_board_def)
  next
    case False
    show ?thesis
    proof (cases "k = k'")
      case True
      with "2.prems" show ?thesis by (auto simp: wf_board_def)
    next
      case ne: False
      with False have lt: "k' < k" by simp
      from "2.IH" [OF False ne wf] have ih: "wf_board (board_put k v b)" .
      have "\<forall>n \<in> fst ` set (board_put k v b). k' < n"
        using above lt by (simp add: set_keys_board_put)
      with ih False ne show ?thesis
        by (auto simp: wf_board_def)
    qed
  qed
qed

lemma tigerCount_board_delete:
  "wf_board b \<Longrightarrow> map_of b k = Some v \<Longrightarrow>
     tigerCount b = tigerCount (board_delete k b) + (if v = Tiger then 1 else 0)"
proof (induction b)
  case Nil
  then show ?case by simp
next
  case (Cons p b)
  obtain k' v' where p: "p = (k', v')" by (cases p)
  from wf_board_distinct [OF Cons.prems(1)] have notin: "k' \<notin> fst ` set b"
    by (simp add: p)
  from Cons.prems(1) have wf: "wf_board b"
    by (simp add: wf_board_def p)
  show ?case
  proof (cases "k = k'")
    case True
    then have "board_delete k b = b"
      using notin by (auto simp: board_delete_def filter_id_conv)
    with True Cons.prems(2) show ?thesis
      by (simp add: tigerCount_def board_delete_def p)
  next
    case False
    with Cons.prems(2) have "map_of b k = Some v" by (simp add: p)
    from Cons.IH [OF wf this] False show ?thesis
      by (simp add: tigerCount_def board_delete_def p)
  qed
qed

lemma tigerCount_board_put:
  "map_of b k = None \<Longrightarrow>
     tigerCount (board_put k v b) = tigerCount b + (if v = Tiger then 1 else 0)"
  by (induction b) (auto simp: tigerCount_def split: if_splits)

lemma fold_jumpStep_concat:
  "fold (jumpStep nid b) ps moves = moves @ concat (map (\<lambda>p. jumpStep nid b p []) ps)"
proof (induction ps arbitrary: moves)
  case Nil
  then show ?case by simp
next
  case (Cons p ps)
  have "fold (jumpStep nid b) (p # ps) moves = fold (jumpStep nid b) ps (jumpStep nid b p moves)"
    by simp
  also have "\<dots> = jumpStep nid b p moves @ concat (map (\<lambda>p. jumpStep nid b p []) ps)"
    by (rule Cons.IH)
  also have "jumpStep nid b p moves = moves @ jumpStep nid b p []"
    by (cases p) (simp add: jumpStep_def Let_def)
  finally show ?case by simp
qed

section \<open>Topology\<close>

lemma ADJACENCY_table_keys: "distinct (map fst ADJACENCY_table)"
  by (simp add: ADJACENCY_table_def)

lemma ADJACENCY_mem:
  "h \<in> set (ADJACENCY g) \<longleftrightarrow> (\<exists>ns. (g, ns) \<in> set ADJACENCY_table \<and> h \<in> set ns)"
proof (cases "map_of ADJACENCY_table g")
  case None
  then have "g \<notin> fst ` set ADJACENCY_table"
    by (simp add: map_of_eq_None_iff)
  then have "\<And>ns. (g, ns) \<notin> set ADJACENCY_table"
    by (metis fst_conv image_eqI)
  with None show ?thesis
    by (simp add: ADJACENCY_def)
next
  case (Some ms)
  have "(g, ns) \<in> set ADJACENCY_table \<longleftrightarrow> ns = ms" for ns
    using Some map_of_eq_Some_iff [OF ADJACENCY_table_keys, of g ns] by auto
  with Some show ?thesis
    by (simp add: ADJACENCY_def)
qed

lemma ADJACENCY_table_sym:
  "\<forall>(g, ns) \<in> set ADJACENCY_table. \<forall>h \<in> set ns. g \<in> set (ADJACENCY h)"
  by code_simp

lemma ADJACENCY_table_irrefl: "\<forall>(g, ns) \<in> set ADJACENCY_table. g \<notin> set ns"
  by code_simp

lemma ADJACENCY_table_distinct: "\<forall>(g, ns) \<in> set ADJACENCY_table. distinct ns"
  by code_simp

lemma ADJACENCY_sym: "h \<in> set (ADJACENCY g) \<Longrightarrow> g \<in> set (ADJACENCY h)"
  using ADJACENCY_table_sym by (fastforce simp: ADJACENCY_mem [of h g])

lemma ADJACENCY_irrefl: "g \<notin> set (ADJACENCY g)"
  using ADJACENCY_table_irrefl by (fastforce simp: ADJACENCY_mem [of g g])

lemma ADJACENCY_distinct: "distinct (ADJACENCY g)"
proof (cases "map_of ADJACENCY_table g")
  case None
  then show ?thesis by (simp add: ADJACENCY_def)
next
  case (Some ms)
  then have "(g, ms) \<in> set ADJACENCY_table" by (rule map_of_SomeD)
  with ADJACENCY_table_distinct have "distinct ms" by fastforce
  with Some show ?thesis by (simp add: ADJACENCY_def)
qed

lemma JUMP_PATHS_not_adjacent_table:
  "\<forall>(s, m, e) \<in> set JUMP_PATHS. e \<notin> set (ADJACENCY s) \<and> s \<notin> set (ADJACENCY e)"
  by code_simp

section \<open>Jump paths\<close>

lemma JUMP_PATHS_find:
  "(s, m, e) \<in> set JUMP_PATHS \<Longrightarrow>
     findJumpPath s e = Some (s, m, e) \<and> findJumpPath e s = Some (s, m, e)"
  unfolding JUMP_PATHS_def findJumpPath_def set_simps insert_iff empty_iff
  by (elim disjE; simp)

lemma JUMP_PATHS_distinct_nodes:
  "(s, m, e) \<in> set JUMP_PATHS \<Longrightarrow> m \<noteq> s \<and> m \<noteq> e \<and> s \<noteq> e"
  by (auto simp: JUMP_PATHS_def)

lemma findJumpPath_Some:
  assumes "findJumpPath f t = Some (s, m, e)"
  shows "(s, m, e) \<in> set JUMP_PATHS \<and> ((s = f \<and> e = t) \<or> (e = f \<and> s = t))"
  using assms unfolding findJumpPath_def
  by (auto simp: find_Some_iff in_set_conv_nth)

lemma findJumpPath_None:
  assumes "findJumpPath f t = None" and "(s, m, e) \<in> set JUMP_PATHS"
  shows "\<not> ((s = f \<and> e = t) \<or> (e = f \<and> s = t))"
  using assms unfolding findJumpPath_def
  by (auto simp: find_None_iff)

lemma findJumpPath_match:
  assumes "(s, m, e) \<in> set JUMP_PATHS" and "(s = f \<and> e = t) \<or> (e = f \<and> s = t)"
  shows "findJumpPath f t = Some (s, m, e)"
  using assms JUMP_PATHS_find [of s m e] by auto

lemma getValidMoves_tiger:
  "getValidMoves nid Tiger b gp =
     filter (\<lambda>n. map_of b n = None) (ADJACENCY nid) @
     concat (map (\<lambda>p. jumpStep nid b p []) JUMP_PATHS)"
  by (simp add: getValidMoves_def fold_jumpStep_concat)

section \<open>Move generation\<close>

text \<open>
  C9: for every node id, every board and every number of placed goats strictly below 18,
  \<^verbatim>\<open>getValidMoves\<close> called for the goat returns the empty list.
\<close>

theorem getValidMoves_goat_placement_empty:
  "goatsPlaced < 18 \<Longrightarrow> getValidMoves nid Goat b goatsPlaced = []"
  by (simp add: getValidMoves_def GOATS_TOTAL_def)

theorem getValidMoves_goat_placement_empty_witness:
  "(17::int) < 18 \<and> getValidMoves 1 Goat [(0, Tiger), (1, Goat)] 17 = []"
  using getValidMoves_goat_placement_empty [of 17 1 "[(0, Tiger), (1, Goat)]"] by simp

text \<open>
  C4: for every board and every Jump Path (start, middle, end), if a tiger stands at one
  end, the middle holds a goat and the other end is empty, then \<^verbatim>\<open>getValidMoves\<close> for
  the tiger's node contains the other end, in both orientations of the path; in
  particular, with a tiger at 8, a goat at 13 and 18 empty,
  \<^verbatim>\<open>getValidMoves(8, 'tiger', board, 18)\<close> contains 18.
\<close>

theorem getValidMoves_jump_both_orientations:
  "(\<forall>(s, m, e) \<in> set JUMP_PATHS.
      (map_of b s = Some Tiger \<and> map_of b m = Some Goat \<and> map_of b e = None
         \<longrightarrow> e \<in> set (getValidMoves s Tiger b goatsPlaced)) \<and>
      (map_of b e = Some Tiger \<and> map_of b m = Some Goat \<and> map_of b s = None
         \<longrightarrow> s \<in> set (getValidMoves e Tiger b goatsPlaced))) \<and>
   (map_of b 8 = Some Tiger \<and> map_of b 13 = Some Goat \<and> map_of b 18 = None
      \<longrightarrow> 18 \<in> set (getValidMoves 8 Tiger b 18))"
proof -
  have forwards: "e \<in> set (getValidMoves s Tiger b gp)"
    if "(s, m, e) \<in> set JUMP_PATHS" "map_of b m = Some Goat" "map_of b e = None" for s m e gp
  proof -
    have "e \<in> set (jumpStep s b (s, m, e) [])"
      using that by (simp add: jumpStep_def Let_def)
    with that(1) show ?thesis
      unfolding getValidMoves_tiger by fastforce
  qed
  have backwards: "s \<in> set (getValidMoves e Tiger b gp)"
    if "(s, m, e) \<in> set JUMP_PATHS" "map_of b m = Some Goat" "map_of b s = None" for s m e gp
  proof -
    have "s \<in> set (jumpStep e b (s, m, e) [])"
      using that by (simp add: jumpStep_def Let_def)
    with that(1) show ?thesis
      unfolding getValidMoves_tiger by fastforce
  qed
  have mem: "(8, 13, 18) \<in> set JUMP_PATHS"
    by (simp add: JUMP_PATHS_def)
  show ?thesis
    using forwards backwards mem by blast
qed

theorem getValidMoves_jump_both_orientations_witness:
  "18 \<in> set (getValidMoves 8 Tiger [(8, Tiger), (13, Goat)] 18) \<and>
   8 \<in> set (getValidMoves 18 Tiger [(13, Goat), (18, Tiger)] 0)"
proof -
  have mem: "(8, 13, 18) \<in> set JUMP_PATHS"
    by (simp add: JUMP_PATHS_def)
  note scenario = getValidMoves_jump_both_orientations
    [of "[(8, Tiger), (13, Goat)]" 18, THEN conjunct2]
  note backwards = getValidMoves_jump_both_orientations
    [of "[(13, Goat), (18, Tiger)]" 0, THEN conjunct1, THEN bspec, OF mem]
  have "18 \<in> set (getValidMoves 8 Tiger [(8, Tiger), (13, Goat)] 18)"
    using scenario by simp
  moreover have "8 \<in> set (getValidMoves 18 Tiger [(13, Goat), (18, Tiger)] 0)"
    using backwards by simp
  ultimately show ?thesis by simp
qed

lemma getValidMoves_empty_destination:
  assumes "t \<in> set (getValidMoves f role b gp)"
  shows "map_of b t = None"
proof (cases role)
  case Tiger
  from assms have "t \<in> set (filter (\<lambda>n. map_of b n = None) (ADJACENCY f)) \<or>
      (\<exists>p \<in> set JUMP_PATHS. t \<in> set (jumpStep f b p []))"
    unfolding Tiger getValidMoves_tiger by auto
  then show ?thesis
    by (auto simp: jumpStep_def Let_def split: if_splits)
next
  case Goat
  with assms show ?thesis
    by (auto simp: getValidMoves_def Let_def split: if_splits)
qed

lemma getAllPossibleMoves_legal:
  assumes "move \<in> set (getAllPossibleMoves b role gp)"
  shows "map_of b (move_to move) = None \<and>
         (case move_from move of None \<Rightarrow> role = Goat | Some f \<Rightarrow> map_of b f = Some role)"
proof (cases "role = Goat \<and> gp < GOATS_TOTAL")
  case True
  with assms show ?thesis
    by (auto simp: getAllPossibleMoves_def)
next
  case False
  with assms obtain f t where "map_of b f = Some role" "t \<in> set (getValidMoves f role b gp)"
    "move = \<lparr>move_from = Some f, move_to = t\<rparr>"
    by (auto simp: getAllPossibleMoves_def Let_def)
  then show ?thesis
    using getValidMoves_empty_destination by auto
qed

section \<open>Win condition\<close>

text \<open>
  C2: for every board, every side to move and every captured count of 8 or more,
  \<^verbatim>\<open>checkWinCondition\<close> reports the game over with the tiger as winner (both definitions
  of the function).
\<close>

theorem checkWinCondition_capture_threshold:
  "8 \<le> goatsCaptured \<Longrightarrow>
     gameOver (checkWinCondition b goatsCaptured turn) \<and>
     winner (checkWinCondition b goatsCaptured turn) = Some Tiger \<and>
     gameOver (checkWinCondition_unguarded b goatsCaptured turn) \<and>
     winner (checkWinCondition_unguarded b goatsCaptured turn) = Some Tiger"
  by (simp add: checkWinCondition_def checkWinCondition_unguarded_def GOATS_TO_WIN_def)

theorem checkWinCondition_capture_threshold_witness:
  "gameOver (checkWinCondition [(0, Goat)] 8 Goat) \<and>
     winner (checkWinCondition [(0, Goat)] 8 Goat) = Some Tiger \<and>
     gameOver (checkWinCondition_unguarded [(0, Goat)] 8 Goat) \<and>
     winner (checkWinCondition_unguarded [(0, Goat)] 8 Goat) = Some Tiger"
  using checkWinCondition_capture_threshold [of 8 "[(0, Goat)]" Goat] by simp

text \<open>
  The guarded definition reports a board without tigers as not over.
\<close>

lemma checkWinCondition_no_tigers:
  "goatsCaptured < 8 \<Longrightarrow> filter (\<lambda>(k, type). type = Tiger) b = [] \<Longrightarrow>
     checkWinCondition b goatsCaptured turn = \<lparr>gameOver = False, winner = None, reason = ''''\<rparr>"
  by (simp add: checkWinCondition_def GOATS_TO_WIN_def)

text \<open>
  C5: on a board with no tiger and fewer than 8 captured goats, \<^verbatim>\<open>checkWinCondition\<close>
  should report not-over. The definition without the guard does not: on the empty board
  with nothing captured it reports the game over, won by the goat.
\<close>

theorem checkWinCondition_unguarded_no_tigers:
  "checkWinCondition_unguarded [] 0 Goat =
     \<lparr>gameOver = True, winner = Some Goat, reason = ''Tigers are trapped!''\<rparr>"
  by (simp add: checkWinCondition_unguarded_def GOATS_TO_WIN_def)

section \<open>Move simulation\<close>

text \<open>
  C1: for every board, move and side, and every captured count that is a safe integer,
  \<^verbatim>\<open>simulateMove\<close> never returns a captured count smaller than the one passed in; it
  returns the count plus 1 exactly when the move is a capturing jump (the tiger moves,
  the move has a source, source and destination are the two ends of a Jump Path in
  either orientation, and the middle of that path holds a goat), and the count
  unchanged in every other case.
\<close>

theorem simulateMove_captured:
  "isSafeInteger currentCaptured \<Longrightarrow>
     currentCaptured \<le> snd (simulateMove b move role currentCaptured) \<and>
     snd (simulateMove b move role currentCaptured) =
       (if capturingJump b move role then currentCaptured + 1 else currentCaptured)"
proof -
  let ?t = "move_to move"
  have eq: "snd (simulateMove b move role currentCaptured) =
     (if capturingJump b move role then currentCaptured + 1 else currentCaptured)"
  proof (cases "move_from move")
    case None
    then show ?thesis by (simp add: simulateMove_def capturingJump_def Let_def)
  next
    case (Some f)
    note mf = Some
    show ?thesis
    proof (cases "role = Tiger")
      case False
      with mf show ?thesis by (simp add: simulateMove_def capturingJump_def Let_def)
    next
      case True
      show ?thesis
      proof (cases "findJumpPath f ?t")
        case None
        have "\<not> capturingJump b move role"
          using findJumpPath_None [OF None] mf by (auto simp: capturingJump_def)
        with None mf True show ?thesis by (simp add: simulateMove_def Let_def)
      next
        case (Some p)
        obtain s m e where p: "p = (s, m, e)" by (cases p)
        from Some p have fj: "findJumpPath f ?t = Some (s, m, e)" by simp
        from findJumpPath_Some [OF fj]
        have mem: "(s, m, e) \<in> set JUMP_PATHS"
          and match: "(s = f \<and> e = ?t) \<or> (e = f \<and> s = ?t)" by auto
        from JUMP_PATHS_distinct_nodes [OF mem] match have ne: "m \<noteq> f" "m \<noteq> ?t" by auto
        have look: "map_of (board_put ?t Tiger (board_delete f b)) m = map_of b m"
          using ne by (simp add: map_of_board_put map_of_board_delete)
        have cj: "capturingJump b move role \<longleftrightarrow> map_of b m = Some Goat"
        proof
          assume "capturingJump b move role"
          then obtain s' m' e' where mem': "(s', m', e') \<in> set JUMP_PATHS"
            and match': "(s' = f \<and> e' = ?t) \<or> (e' = f \<and> s' = ?t)"
            and goat: "map_of b m' = Some Goat"
            using mf by (auto simp: capturingJump_def)
          from findJumpPath_match [OF mem' match'] fj have "m' = m" by simp
          with goat show "map_of b m = Some Goat" by simp
        next
          assume "map_of b m = Some Goat"
          with mem match mf True show "capturingJump b move role"
            by (auto simp: capturingJump_def)
        qed
        show ?thesis
          using mf True fj look cj by (simp add: simulateMove_def Let_def)
      qed
    qed
  qed
  then show ?thesis by simp
qed

theorem simulateMove_captured_witness:
  "isSafeInteger 3 \<and>
   snd (simulateMove [(8, Tiger), (13, Goat)] \<lparr>move_from = Some 8, move_to = 18\<rparr> Tiger 3) = 4 \<and>
   snd (simulateMove [(8, Tiger), (13, Goat)] \<lparr>move_from = Some 8, move_to = 9\<rparr> Tiger 3) = 3"
proof -
  have safe: "isSafeInteger 3"
    by (simp add: isSafeInteger_def)
  from simulateMove_captured [OF safe, of "[(8, Tiger), (13, Goat)]"
      "\<lparr>move_from = Some 8, move_to = 18\<rparr>" Tiger]
    simulateMove_captured [OF safe, of "[(8, Tiger), (13, Goat)]"
      "\<lparr>move_from = Some 8, move_to = 9\<rparr>" Tiger]
  show ?thesis
    using safe by (simp add: capturingJump_def JUMP_PATHS_def)
qed

lemma simulateMove_preserves:
  assumes wf: "wf_board b"
    and empty: "map_of b (move_to move) = None"
    and src: "case move_from move of None \<Rightarrow> role = Goat | Some f \<Rightarrow> map_of b f = Some role"
  shows "wf_board (fst (simulateMove b move role c)) \<and>
         tigerCount (fst (simulateMove b move role c)) = tigerCount b"
proof (cases "move_from move")
  case None
  with src have "role = Goat" by simp
  with None wf empty show ?thesis
    by (simp add: simulateMove_def Let_def wf_board_put tigerCount_board_put)
next
  case (Some f)
  note mf = Some
  let ?t = "move_to move"
  let ?b0 = "board_delete f b"
  let ?b1 = "board_put ?t role ?b0"
  from src mf have at_f: "map_of b f = Some role" by simp
  have e0: "map_of ?b0 ?t = None"
    using empty by (simp add: map_of_board_delete)
  have wf1: "wf_board ?b1"
    by (simp add: wf wf_board_delete wf_board_put)
  have "tigerCount ?b1 = tigerCount ?b0 + (if role = Tiger then 1 else 0)"
    by (rule tigerCount_board_put [OF e0])
  with tigerCount_board_delete [OF wf at_f] have tc1: "tigerCount ?b1 = tigerCount b"
    by simp
  show ?thesis
  proof (cases "role = Tiger")
    case False
    with mf wf1 tc1 show ?thesis by (simp add: simulateMove_def Let_def)
  next
    case True
    show ?thesis
    proof (cases "findJumpPath f ?t")
      case None
      with mf True wf1 tc1 show ?thesis by (simp add: simulateMove_def Let_def)
    next
      case (Some p)
      obtain s m e where p: "p = (s, m, e)" by (cases p)
      show ?thesis
      proof (cases "map_of ?b1 m = Some Goat")
        case False
        with mf True Some p wf1 tc1 show ?thesis by (simp add: simulateMove_def Let_def)
      next
        case goat: True
        from tigerCount_board_delete [OF wf1 goat]
        have "tigerCount (board_delete m ?b1) = tigerCount b" using tc1 by simp
        moreover have "wf_board (board_delete m ?b1)" by (rule wf_board_delete [OF wf1])
        ultimately show ?thesis
          using mf True Some p goat by (simp add: simulateMove_def Let_def)
      qed
    qed
  qed
qed

section \<open>Reachable states\<close>

lemma reachable_wf_tigers:
  "reachable s \<Longrightarrow> wf_board (gs_board s) \<and> tigerCount (gs_board s) = 4"
proof (induction rule: reachable.induct)
  case reachable_init
  show ?case by (simp add: initialState_def INITIAL_BOARD_def tigerCount_def wf_board_def)
next
  case (reachable_move s move)
  from reachable_move.IH have wf: "wf_board (gs_board s)" and tc: "tigerCount (gs_board s) = 4"
    by simp_all
  obtain nextBoard nextCaptured
    where sm: "simulateMove (gs_board s) move (gs_turn s) (gs_goatsCaptured s) =
      (nextBoard, nextCaptured)"
    by (cases "simulateMove (gs_board s) move (gs_turn s) (gs_goatsCaptured s)")
  from getAllPossibleMoves_legal [OF reachable_move.hyps(2)]
  have "wf_board (fst (simulateMove (gs_board s) move (gs_turn s) (gs_goatsCaptured s))) \<and>
        tigerCount (fst (simulateMove (gs_board s) move (gs_turn s) (gs_goatsCaptured s))) =
          tigerCount (gs_board s)"
    by (intro simulateMove_preserves [OF wf]) auto
  with tc sm show ?case
    by (simp add: playMove_def)
qed

lemma first_placement_legal:
  "\<lparr>move_from = None, move_to = 1\<rparr> \<in>
     set (getAllPossibleMoves (gs_board initialState) (gs_turn initialState)
            (gs_goatsPlaced initialState))"
  by (simp add: getAllPossibleMoves_def initialState_def GOATS_TOTAL_def INITIAL_BOARD_def NODES_def)

text \<open>
  C3: in every state reachable from the initial position (tigers at 0, 3, 8 and 13, no goat
  placed) by legal moves, one at a time, the board gives each node at most one occupant
  and holds exactly 4 tigers.
\<close>

theorem reachable_board_invariant:
  "reachable s \<Longrightarrow> distinct (map fst (gs_board s)) \<and> tigerCount (gs_board s) = 4"
  using reachable_wf_tigers [of s] wf_board_distinct [of "gs_board s"] by simp

theorem reachable_board_invariant_witness:
  "distinct (map fst (gs_board (playMove initialState \<lparr>move_from = None, move_to = 1\<rparr>))) \<and>
   tigerCount (gs_board (playMove initialState \<lparr>move_from = None, move_to = 1\<rparr>)) = 4 \<and>
   gs_board (playMove initialState \<lparr>move_from = None, move_to = 1\<rparr>) =
     [(0, Tiger), (1, Goat), (3, Tiger), (8, Tiger), (13, Tiger)]"
proof -
  have "reachable (playMove initialState \<lparr>move_from = None, move_to = 1\<rparr>)"
    by (rule reachable_move [OF reachable_init first_placement_legal])
  from reachable_board_invariant [OF this]
  show ?thesis
    by (simp add: playMove_def initialState_def simulateMove_def INITIAL_BOARD_def)
qed

section \<open>Heuristic evaluation for the goat\<close>

lemma fold_count:
  "fold (\<lambda>n c. if P n then c + 1 else c) xs (c0::int) = c0 + int (length (filter P xs))"
  by (induction xs arbitrary: c0) auto

lemma fold_tigerStep:
  "fold (tigerStep b gp) ts (m, t, co) =
     (m + sum_list (map (\<lambda>t. int (length (getValidMoves t Tiger b gp))) ts),
      t + int (length (filter (\<lambda>t. getValidMoves t Tiger b gp = []) ts)),
      co + sum_list (map (\<lambda>t. int (length (filter
              (\<lambda>to'. list_ex (\<lambda>(p0, p1, p2). (p0 = t \<and> p2 = to') \<or> (p2 = t \<and> p0 = to')) JUMP_PATHS)
              (getValidMoves t Tiger b gp)))) ts))"
proof (induction ts arbitrary: m t co)
  case Nil
  then show ?case by simp
next
  case (Cons x ts)
  have step: "tigerStep b gp x (m, t, co) =
      (m + int (length (getValidMoves x Tiger b gp)),
       (if getValidMoves x Tiger b gp = [] then t + 1 else t),
       co + int (length (filter
              (\<lambda>to'. list_ex (\<lambda>(p0, p1, p2). (p0 = x \<and> p2 = to') \<or> (p2 = x \<and> p0 = to')) JUMP_PATHS)
              (getValidMoves x Tiger b gp))))"
    by (simp add: tigerStep_def Let_def fold_count)
  show ?case
    unfolding fold_Cons comp_def step Cons.IH by simp
qed

lemma sum_list_two_tests:
  "sum_list (map (\<lambda>p. (if P p then 1 else 0) + (if Q p then 1 else (0::nat))) ps) =
     length (filter P ps) + length (filter Q ps)"
  by (induction ps) auto

lemma length_jumpStep:
  "length (jumpStep t b p []) =
     (if (case p of (s, m, e) \<Rightarrow> s = t \<and> map_of b m = Some Goat \<and> map_of b e = None) then 1 else 0) +
     (if (case p of (s, m, e) \<Rightarrow> e = t \<and> map_of b m = Some Goat \<and> map_of b s = None) then 1 else 0)"
  by (cases p) (auto simp: jumpStep_def Let_def)

lemma length_jump_part:
  "length (concat (map (\<lambda>p. jumpStep t b p []) JUMP_PATHS)) = jumpDestinationCount b t"
  unfolding length_concat map_map comp_def length_jumpStep sum_list_two_tests
  by (simp add: jumpDestinationCount_def)

lemma adjacent_not_jump:
  assumes "n \<in> set (ADJACENCY t)"
  shows "\<not> list_ex (\<lambda>(p0, p1, p2). (p0 = t \<and> p2 = n) \<or> (p2 = t \<and> p0 = n)) JUMP_PATHS"
  using assms JUMP_PATHS_not_adjacent_table by (fastforce simp: list_ex_iff)

lemma jump_part_is_jump:
  assumes "n \<in> set (concat (map (\<lambda>p. jumpStep t b p []) JUMP_PATHS))"
  shows "list_ex (\<lambda>(p0, p1, p2). (p0 = t \<and> p2 = n) \<or> (p2 = t \<and> p0 = n)) JUMP_PATHS"
proof -
  from assms obtain p where p: "p \<in> set JUMP_PATHS" "n \<in> set (jumpStep t b p [])" by auto
  obtain s m e where "p = (s, m, e)" by (cases p)
  with p have "(s, m, e) \<in> set JUMP_PATHS" "(s = t \<and> e = n) \<or> (e = t \<and> s = n)"
    by (auto simp: jumpStep_def Let_def split: if_splits)
  then show ?thesis by (fastforce simp: list_ex_iff)
qed

lemma capture_count:
  "length (filter (\<lambda>to'. list_ex (\<lambda>(p0, p1, p2). (p0 = t \<and> p2 = to') \<or> (p2 = t \<and> p0 = to')) JUMP_PATHS)
            (getValidMoves t Tiger b gp)) = jumpDestinationCount b t"
proof -
  let ?J = "\<lambda>to'. list_ex (\<lambda>(p0, p1, p2). (p0 = t \<and> p2 = to') \<or> (p2 = t \<and> p0 = to')) JUMP_PATHS"
  have "filter ?J (filter (\<lambda>n. map_of b n = None) (ADJACENCY t)) = []"
    using adjacent_not_jump by (auto simp: filter_empty_conv)
  moreover have "filter ?J (concat (map (\<lambda>p. jumpStep t b p []) JUMP_PATHS)) =
      concat (map (\<lambda>p. jumpStep t b p []) JUMP_PATHS)"
    using jump_part_is_jump by (intro filter_True) blast
  ultimately show ?thesis
    by (simp add: getValidMoves_tiger length_jump_part)
qed

lemma sum_length_filter_Cons:
  "sum_list (map (\<lambda>g. int (length (filter (P g) (x # ys)))) xs) =
     int (length (filter (\<lambda>g. P g x) xs)) + sum_list (map (\<lambda>g. int (length (filter (P g) ys))) xs)"
  by (induction xs) auto

lemma length_filter_disj:
  "(\<And>x. x \<in> set xs \<Longrightarrow> \<not> (P x \<and> Q x)) \<Longrightarrow>
     length (filter P xs) + length (filter Q xs) = length (filter (\<lambda>x. P x \<or> Q x) xs)"
  by (induction xs) auto

lemma ordered_pairs_double:
  fixes G :: "int list"
  assumes sym: "\<And>g h. adj g h \<Longrightarrow> adj h g" and irr: "\<And>g. \<not> adj g g"
  shows "distinct G \<Longrightarrow>
     sum_list (map (\<lambda>g. int (length (filter (adj g) G))) G) =
     2 * sum_list (map (\<lambda>g. int (length (filter (\<lambda>h. g < h \<and> adj g h) G))) G)"
proof (induction G)
  case Nil
  then show ?case by simp
next
  case (Cons x G)
  then have notin: "x \<notin> set G" and dist: "distinct G" by simp_all
  let ?A = "int (length (filter (adj x) G))"
  have flip: "filter (\<lambda>g. adj g x) G = filter (adj x) G"
    using sym by (intro filter_cong) auto
  have "sum_list (map (\<lambda>g. int (length (filter (adj g) (x # G)))) (x # G)) =
      int (length (filter (adj x) (x # G))) +
      sum_list (map (\<lambda>g. int (length (filter (adj g) (x # G)))) G)"
    by simp
  also have "int (length (filter (adj x) (x # G))) = ?A"
    by (simp add: irr)
  also have "sum_list (map (\<lambda>g. int (length (filter (adj g) (x # G)))) G) =
      ?A + sum_list (map (\<lambda>g. int (length (filter (adj g) G))) G)"
    unfolding sum_length_filter_Cons [of adj x G G] flip ..
  finally have lhs: "sum_list (map (\<lambda>g. int (length (filter (adj g) (x # G)))) (x # G)) =
      2 * ?A + sum_list (map (\<lambda>g. int (length (filter (adj g) G))) G)"
    by simp
  have "length (filter (\<lambda>h. x < h \<and> adj x h) G) + length (filter (\<lambda>g. g < x \<and> adj g x) G) =
      length (filter (\<lambda>h. (x < h \<and> adj x h) \<or> (h < x \<and> adj h x)) G)"
    by (intro length_filter_disj) auto
  also have "filter (\<lambda>h. (x < h \<and> adj x h) \<or> (h < x \<and> adj h x)) G = filter (adj x) G"
  proof (intro filter_cong refl)
    fix h assume "h \<in> set G"
    with notin have "h < x \<or> x < h" by (metis less_linear)
    with sym show "((x < h \<and> adj x h) \<or> (h < x \<and> adj h x)) = adj x h" by auto
  qed
  finally have half: "int (length (filter (\<lambda>h. x < h \<and> adj x h) G)) +
      int (length (filter (\<lambda>g. g < x \<and> adj g x) G)) = ?A"
    by simp
  have "sum_list (map (\<lambda>g. int (length (filter (\<lambda>h. g < h \<and> adj g h) (x # G)))) (x # G)) =
      int (length (filter (\<lambda>h. x < h \<and> adj x h) (x # G))) +
      sum_list (map (\<lambda>g. int (length (filter (\<lambda>h. g < h \<and> adj g h) (x # G)))) G)"
    by simp
  also have "int (length (filter (\<lambda>h. x < h \<and> adj x h) (x # G))) =
      int (length (filter (\<lambda>h. x < h \<and> adj x h) G))"
    by simp
  also have "sum_list (map (\<lambda>g. int (length (filter (\<lambda>h. g < h \<and> adj g h) (x # G)))) G) =
      int (length (filter (\<lambda>g. g < x \<and> adj g x) G)) +
      sum_list (map (\<lambda>g. int (length (filter (\<lambda>h. g < h \<and> adj g h) G))) G)"
    by (rule sum_length_filter_Cons)
  finally have rhs: "sum_list (map (\<lambda>g. int (length (filter (\<lambda>h. g < h \<and> adj g h) (x # G)))) (x # G)) =
      ?A + sum_list (map (\<lambda>g. int (length (filter (\<lambda>h. g < h \<and> adj g h) G))) G)"
    using half by simp
  show ?case
    unfolding lhs rhs using Cons.IH [OF dist] by simp
qed

lemma int_sum_list: "int (sum_list (map f xs)) = sum_list (map (\<lambda>x. int (f x)) xs)"
  by (induction xs) auto

lemma length_filter_product:
  "length (filter (\<lambda>(g, h). Q g h) (List.product xs ys)) =
     sum_list (map (\<lambda>g. length (filter (Q g) ys)) xs)"
  by (induction xs) (auto simp: filter_map comp_def)

lemma goat_iff: "map_of b n = Some Goat \<longleftrightarrow> n \<in> set (goatsOf b)"
  by (auto simp: goatsOf_def dest: map_of_SomeD intro: rev_image_eqI)

lemma distinct_goatsOf: "wf_board b \<Longrightarrow> distinct (goatsOf b)"
  by (simp add: goatsOf_def wf_board_distinct)

lemma length_filter_swap:
  "distinct xs \<Longrightarrow> distinct ys \<Longrightarrow>
     length (filter (\<lambda>n. n \<in> set ys) xs) = length (filter (\<lambda>h. h \<in> set xs) ys)"
  by (simp add: distinct_length_filter Int_commute)

lemma fold_connections:
  "fold (\<lambda>g c. fold (\<lambda>n c'. if P n then c' + 1 else c') (A g) c) gs (c0::int) =
     c0 + sum_list (map (\<lambda>g. int (length (filter P (A g)))) gs)"
  by (induction gs arbitrary: c0) (auto simp: fold_count)

lemma connections_double:
  assumes "wf_board b"
  shows "fold (\<lambda>g c. fold (\<lambda>n c'. if map_of b n = Some Goat then c' + 1 else c') (ADJACENCY g) c)
           (goatsOf b) 0 = 2 * adjacentGoatPairs b"
proof -
  let ?G = "goatsOf b"
  have dist: "distinct ?G" by (rule distinct_goatsOf [OF assms])
  have "fold (\<lambda>g c. fold (\<lambda>n c'. if map_of b n = Some Goat then c' + 1 else c') (ADJACENCY g) c) ?G 0 =
      sum_list (map (\<lambda>g. int (length (filter (\<lambda>n. n \<in> set ?G) (ADJACENCY g)))) ?G)"
    by (simp add: fold_connections goat_iff)
  also have "\<dots> = sum_list (map (\<lambda>g. int (length (filter (\<lambda>h. h \<in> set (ADJACENCY g)) ?G))) ?G)"
    by (simp add: length_filter_swap [OF ADJACENCY_distinct dist])
  also have "\<dots> = 2 * sum_list (map (\<lambda>g. int (length (filter (\<lambda>h. g < h \<and> h \<in> set (ADJACENCY g)) ?G))) ?G)"
    by (rule ordered_pairs_double [OF _ _ dist]) (auto simp: ADJACENCY_sym ADJACENCY_irrefl)
  also have "sum_list (map (\<lambda>g. int (length (filter (\<lambda>h. g < h \<and> h \<in> set (ADJACENCY g)) ?G))) ?G) =
      adjacentGoatPairs b"
    by (simp add: adjacentGoatPairs_def length_filter_product [of "\<lambda>g h. g < h \<and> h \<in> set (ADJACENCY g)"]
        int_sum_list)
  finally show ?thesis .
qed

lemma evaluatePosition_goat:
  "evaluatePosition b Goat goatsCaptured goatsPlaced =
     goatScoreWith
       (fold (\<lambda>g c. fold (\<lambda>n c'. if map_of b n = Some Goat then c' + 1 else c') (ADJACENCY g) c)
          (goatsOf b) 0)
       b goatsCaptured goatsPlaced"
proof -
  have central: "fold (\<lambda>g sc. if g \<in> set [12, 13, 14, 8, 18] then sc + 70 else sc) gs (s0::int) =
      s0 + 70 * int (length (filter (\<lambda>g. g \<in> {12, 13, 14, 8, 18}) gs))" for gs s0
    by (induction gs arbitrary: s0) auto
  show ?thesis
    unfolding evaluatePosition_def Let_def goatScoreWith_def trappedCount_def totalMobility_def
      captureOpportunitiesCount_def centralGoats_def
      tigersOf_def [symmetric] goatsOf_def [symmetric] fold_tigerStep capture_count central
    by simp
qed

text \<open>
  C6 (amended): for every board and placed count, and every captured count whose capture
  term capturedCount * 2500 stays below 2^52 in absolute value (a JavaScript number holds
  it exactly, with as much room again for the terms that depend on the board),
  \<^verbatim>\<open>evaluatePosition\<close> for the goat returns
  - capturedCount * 2500 + trappedCount * 1500 - totalMobility * 50
  - captureOpportunities * 1000 + connections * 40 + 70 per goat on one of the nodes
  12, 13, 14, 8, 18, where connections counts every pair of adjacent goats twice, once
  from each of its two members.
\<close>

theorem evaluatePosition_goat_formula:
  "wf_board b \<Longrightarrow> \<bar>goatsCaptured\<bar> * 2500 < 2 ^ 52 \<Longrightarrow>
     evaluatePosition b Goat goatsCaptured goatsPlaced =
       goatScoreWith (2 * adjacentGoatPairs b) b goatsCaptured goatsPlaced"
  by (simp add: evaluatePosition_goat connections_double)

lemma ADJACENCY_values:
  "ADJACENCY 0 = [2, 3, 4]" "ADJACENCY 1 = [2, 6]" "ADJACENCY 2 = [1, 3, 0, 7]"
  "ADJACENCY 3 = [2, 4, 0, 8]" "ADJACENCY 4 = [3, 5, 0, 9]" "ADJACENCY 8 = [7, 9, 3, 13]"
  "ADJACENCY 13 = [12, 14, 8, 18]"
  by (simp_all add: ADJACENCY_def ADJACENCY_table_def)

theorem evaluatePosition_goat_formula_witness:
  "\<bar>1::int\<bar> * 2500 < 2 ^ 52 \<and>
   evaluatePosition [(0, Tiger), (1, Goat), (2, Goat), (3, Tiger), (4, Goat), (8, Tiger), (13, Tiger)]
     Goat 1 4 = - 5820"
proof -
  let ?b = "[(0, Tiger), (1, Goat), (2, Goat), (3, Tiger), (4, Goat), (8, Tiger), (13, Tiger)]"
  have wf: "wf_board ?b"
    by (simp add: wf_board_def)
  have "goatScoreWith (2 * adjacentGoatPairs ?b) ?b 1 4 = - 5820"
    by (simp add: goatScoreWith_def adjacentGoatPairs_def trappedCount_def totalMobility_def
        captureOpportunitiesCount_def jumpDestinationCount_def centralGoats_def tigersOf_def
        goatsOf_def getValidMoves_def jumpStep_def JUMP_PATHS_def ADJACENCY_values)
  moreover have small: "\<bar>1::int\<bar> * 2500 < 2 ^ 52"
    by simp
  ultimately show ?thesis
    using evaluatePosition_goat_formula [OF wf small, of 4] by simp
qed

text \<open>
  C6 as stated, with each unordered pair of adjacent goats counted once, fails: on the
  board with goats at the adjacent nodes 1 and 2 and nothing else the code returns 80, the
  formula 40.
\<close>

lemma evaluatePosition_two_goats: "evaluatePosition [(1, Goat), (2, Goat)] Goat 0 2 = 80"
  by (simp add: evaluatePosition_def ADJACENCY_values)

lemma goatScore_two_goats_once:
  "goatScoreWith (adjacentGoatPairs [(1, Goat), (2, Goat)]) [(1, Goat), (2, Goat)] 0 2 = 40"
  by (simp add: goatScoreWith_def adjacentGoatPairs_def trappedCount_def totalMobility_def
      captureOpportunitiesCount_def centralGoats_def tigersOf_def goatsOf_def ADJACENCY_values)

theorem evaluatePosition_goat_formula_counterexample:
  "evaluatePosition [(1, Goat), (2, Goat)] Goat 0 2 \<noteq>
     goatScoreWith (adjacentGoatPairs [(1, Goat), (2, Goat)]) [(1, Goat), (2, Goat)] 0 2"
  by (simp add: evaluatePosition_two_goats goatScore_two_goats_once)

section \<open>Placement heuristic for the goat\<close>

text \<open>
  A node in immediate danger scores below 0 and a node out of danger at least 0, whatever
  the random terms in [0, 10) are, so once the loop has seen a node out of danger its best
  node is out of danger.
\<close>

lemma placementScore_danger: "immediateDanger b n \<Longrightarrow> placementScore b n = - 10000"
  by (simp add: placementScore_def)

lemma placementScore_safe: "\<not> immediateDanger b n \<Longrightarrow> 0 \<le> placementScore b n"
  by (simp add: placementScore_def Let_def fold_count)

lemma placementLoop_safe:
  assumes rnd: "\<And>k. 0 \<le> random k \<and> random k < 1"
  shows "set ns \<subseteq> E \<Longrightarrow>
     (\<And>m. mx = Finite m \<Longrightarrow> 0 \<le> m \<Longrightarrow> best \<in> E \<and> \<not> immediateDanger b best) \<Longrightarrow>
     mx \<noteq> PlusInfinity \<Longrightarrow>
     (\<exists>n \<in> set ns. \<not> immediateDanger b n) \<or> (\<exists>m. mx = Finite m \<and> 0 \<le> m) \<Longrightarrow>
     fst (placementLoop b random ns k (best, mx)) \<in> E \<and>
     \<not> immediateDanger b (fst (placementLoop b random ns k (best, mx)))"
proof (induction ns arbitrary: k best mx)
  case Nil
  then show ?case by auto
next
  case (Cons n ns)
  let ?score = "real_of_int (placementScore b n) + random k * 10"
  let ?upd = "ext_less mx (Finite ?score)"
  let ?best' = "if ?upd then n else best"
  let ?mx' = "if ?upd then Finite ?score else mx"
  have unfold: "placementLoop b random (n # ns) k (best, mx) =
      placementLoop b random ns (Suc k) (?best', ?mx')"
    by (simp add: Let_def)
  from Cons.prems(1) have nE: "n \<in> E" and sub: "set ns \<subseteq> E" by simp_all
  have r: "0 \<le> random k" "random k < 1" using rnd by simp_all
  have danger_neg: "?score < 0" if "immediateDanger b n"
    using that r by (simp add: placementScore_danger)
  have safe_pos: "0 \<le> ?score" if "\<not> immediateDanger b n"
    using placementScore_safe [OF that] r by simp
  have inv: "?best' \<in> E \<and> \<not> immediateDanger b ?best'" if "?mx' = Finite m" "0 \<le> m" for m
  proof (cases ?upd)
    case True
    with that have "0 \<le> ?score" by simp
    with danger_neg have "\<not> immediateDanger b n" by fastforce
    with True nE show ?thesis by simp
  next
    case False
    with that Cons.prems(2) show ?thesis by simp
  qed
  have fin: "?mx' \<noteq> PlusInfinity"
    using Cons.prems(3) by simp
  have progress: "(\<exists>n' \<in> set ns. \<not> immediateDanger b n') \<or> (\<exists>m. ?mx' = Finite m \<and> 0 \<le> m)"
  proof (cases "immediateDanger b n")
    case True
    show ?thesis
    proof (cases "\<exists>m. mx = Finite m \<and> 0 \<le> m")
      case ge: True
      then obtain m where m: "mx = Finite m" "0 \<le> m" by auto
      with danger_neg [OF True] have "\<not> ?upd" by (simp add: ext_less_def)
      with ge show ?thesis by simp
    next
      case False
      with Cons.prems(4) True show ?thesis by auto
    qed
  next
    case False
    note pos = safe_pos [OF False]
    show ?thesis
    proof (cases ?upd)
      case True
      with pos show ?thesis by simp
    next
      case noupd: False
      with Cons.prems(3) obtain m where "mx = Finite m" "?score \<le> m"
        by (cases mx) (auto simp: ext_less_def)
      with pos noupd show ?thesis by simp
    qed
  qed
  show ?case
    unfolding unfold by (rule Cons.IH [OF sub inv fin progress])
qed

lemma immediateDanger_iff:
  "immediateDanger b n \<longleftrightarrow>
     (\<exists>(s, m, e) \<in> set JUMP_PATHS.
        m = n \<and> ((map_of b s = Some Tiger \<and> map_of b e = None) \<or>
                 (map_of b e = Some Tiger \<and> map_of b s = None)))"
  by (simp add: immediateDanger_def list_ex_iff)

lemma getBestPlacementGoat_safe:
  assumes rnd: "\<And>k. 0 \<le> random k \<and> random k < 1"
    and ex: "\<exists>n \<in> set NODES. map_of b n = None \<and> \<not> immediateDanger b n"
  shows "move_to (getBestPlacementGoat b random) \<in> set NODES \<and>
         map_of b (move_to (getBestPlacementGoat b random)) = None \<and>
         \<not> immediateDanger b (move_to (getBestPlacementGoat b random))"
proof -
  let ?E = "filter (\<lambda>n. map_of b n = None) NODES"
  have "fst (placementLoop b random ?E 0 (- 1, MinusInfinity)) \<in> set ?E \<and>
        \<not> immediateDanger b (fst (placementLoop b random ?E 0 (- 1, MinusInfinity)))"
    using ex by (intro placementLoop_safe [OF rnd]) auto
  then show ?thesis
    by (simp add: getBestPlacementGoat_def)
qed

text \<open>
  C7: on the fresh board (tigers at 0, 3, 8 and 13, no goat), for every outcome of the
  random terms (each call of \<^verbatim>\<open>Math.random()\<close> a number in [0, 1)),
  \<^verbatim>\<open>getBestPlacementGoat\<close> returns a placement on an empty node that is not the middle
  of any Jump Path with a tiger at one end and the other end empty.
\<close>

theorem getBestPlacementGoat_fresh_board:
  "\<forall>k. 0 \<le> random k \<and> random k < 1 \<Longrightarrow>
     move_from (getBestPlacementGoat INITIAL_BOARD random) = None \<and>
     move_to (getBestPlacementGoat INITIAL_BOARD random) \<in> set NODES \<and>
     map_of INITIAL_BOARD (move_to (getBestPlacementGoat INITIAL_BOARD random)) = None \<and>
     \<not> (\<exists>(s, m, e) \<in> set JUMP_PATHS.
          m = move_to (getBestPlacementGoat INITIAL_BOARD random) \<and>
          ((map_of INITIAL_BOARD s = Some Tiger \<and> map_of INITIAL_BOARD e = None) \<or>
           (map_of INITIAL_BOARD e = Some Tiger \<and> map_of INITIAL_BOARD s = None)))"
proof -
  assume rnd: "\<forall>k. 0 \<le> random k \<and> random k < 1"
  have "\<not> immediateDanger INITIAL_BOARD 1"
    by (simp add: immediateDanger_def INITIAL_BOARD_def JUMP_PATHS_def)
  moreover have "1 \<in> set NODES \<and> map_of INITIAL_BOARD 1 = None"
    by (simp add: NODES_def INITIAL_BOARD_def)
  ultimately have "\<exists>n \<in> set NODES. map_of INITIAL_BOARD n = None \<and> \<not> immediateDanger INITIAL_BOARD n"
    by blast
  from getBestPlacementGoat_safe [OF _ this, of random] rnd
  show ?thesis
    unfolding immediateDanger_iff by (simp add: getBestPlacementGoat_def)
qed

theorem getBestPlacementGoat_fresh_board_witness:
  "move_from (getBestPlacementGoat INITIAL_BOARD (\<lambda>k. 1 / 2)) = None \<and>
     move_to (getBestPlacementGoat INITIAL_BOARD (\<lambda>k. 1 / 2)) \<in> set NODES \<and>
     map_of INITIAL_BOARD (move_to (getBestPlacementGoat INITIAL_BOARD (\<lambda>k. 1 / 2))) = None \<and>
     \<not> (\<exists>(s, m, e) \<in> set JUMP_PATHS.
          m = move_to (getBestPlacementGoat INITIAL_BOARD (\<lambda>k. 1 / 2)) \<and>
          ((map_of INITIAL_BOARD s = Some Tiger \<and> map_of INITIAL_BOARD e = None) \<or>
           (map_of INITIAL_BOARD e = Some Tiger \<and> map_of INITIAL_BOARD s = None)))"
proof -
  have "\<forall>k::nat. (0::real) \<le> 1 / 2 \<and> (1::real) / 2 < 1" by simp
  then show ?thesis by (rule getBestPlacementGoat_fresh_board)
qed

section \<open>Search: the anti-repetition filter\<close>

lemma isReverseMove_swapsPrevious:
  "swapsPrevious previousMove move \<longleftrightarrow>
     (\<exists>prevMove. previousMove = Some prevMove \<and> isReverseMove move prevMove)"
  by (auto simp: swapsPrevious_def isReverseMove_def split: option.splits)

lemma repetitionSkip_iff:
  "repetitionSkip previousMove n move \<longleftrightarrow> swapsPrevious previousMove move \<and> n > 1"
  by (auto simp: repetitionSkip_def isReverseMove_swapsPrevious split: option.splits)

lemma maxLoop_filter:
  "maxLoop child previousMove n xs alpha beta best =
     alphaBetaMax child (filter (\<lambda>m. \<not> repetitionSkip previousMove n m) xs) alpha beta best"
  by (induction xs arbitrary: alpha beta best) (simp_all add: Let_def)

lemma minLoop_filter:
  "minLoop child previousMove n xs alpha beta best =
     alphaBetaMin child (filter (\<lambda>m. \<not> repetitionSkip previousMove n m) xs) alpha beta best"
  by (induction xs arbitrary: alpha beta best) (simp_all add: Let_def)

lemma survivingCandidates_filter:
  "survivingCandidates previousMove moves =
     filter (\<lambda>m. \<not> repetitionSkip previousMove (length moves) m) moves"
proof (cases "length moves = 1")
  case True
  then obtain m where "moves = [m]" by (cases moves) auto
  then show ?thesis by (simp add: survivingCandidates_def repetitionSkip_iff)
next
  case False
  then have ne: "moves \<noteq> [m]" for m by auto
  have "1 < length moves" if "m \<in> set moves" for m
    using that False by (cases moves) auto
  then show ?thesis
    unfolding survivingCandidates_def
    by (intro filter_cong refl) (simp add: ne repetitionSkip_iff)
qed

lemma minimax_unfold:
  assumes "currentTurn = (if isMaximizing then aiRole else (if aiRole = Tiger then Goat else Tiger))"
    and "\<not> gameOver (checkWinCondition b goatsCaptured currentTurn)"
    and "depth \<noteq> 0"
    and "moves = sortMovesForPruning (getAllPossibleMoves b currentTurn goatsPlaced) b currentTurn"
    and "moves \<noteq> []"
  shows "minimax b depth alpha beta isMaximizing aiRole goatsPlaced goatsCaptured previousMove =
     (if isMaximizing then
        (case maxLoop (minimaxChild b depth currentTurn aiRole goatsPlaced goatsCaptured False)
                previousMove (length moves) moves alpha beta MinusInfinity of
           Finite v \<Rightarrow> v | _ \<Rightarrow> - 10000)
      else
        (case minLoop (minimaxChild b depth currentTurn aiRole goatsPlaced goatsCaptured True)
                previousMove (length moves) moves alpha beta PlusInfinity of
           Finite v \<Rightarrow> v | _ \<Rightarrow> 10000))"
proof -
  have child: "minimaxChild b depth currentTurn aiRole goatsPlaced goatsCaptured flag =
      (\<lambda>move alpha' beta'.
         case simulateMove b move currentTurn goatsCaptured of
           (nextBoard, nextCaptured) \<Rightarrow>
             minimax nextBoard (depth - 1) alpha' beta' flag aiRole
               (goatsPlaced + (if currentTurn = Goat \<and> move_from move = None then 1 else 0))
               nextCaptured (Some move))" for flag
    by (simp add: minimaxChild_def fun_eq_iff)
  show ?thesis
    unfolding child
    by (subst minimax.simps) (use assms in \<open>simp add: Let_def\<close>)
qed

text \<open>
  C8: at every ply of \<^verbatim>\<open>minimax\<close> that searches (the position is not terminal, the depth
  is not exhausted, there are candidates), the value is that of the alpha-beta loop over
  the surviving candidates: a candidate that swaps the previous move is skipped, not
  evaluated, when the ply has more than one candidate, and a candidate that is the only
  one of its ply is evaluated whatever the previous move was.
\<close>

theorem minimax_skips_reverse_move:
  assumes "currentTurn = (if isMaximizing then aiRole else (if aiRole = Tiger then Goat else Tiger))"
    and "\<not> gameOver (checkWinCondition b goatsCaptured currentTurn)"
    and "depth \<noteq> 0"
    and "moves = sortMovesForPruning (getAllPossibleMoves b currentTurn goatsPlaced) b currentTurn"
    and "moves \<noteq> []"
  shows "minimax b depth alpha beta isMaximizing aiRole goatsPlaced goatsCaptured previousMove =
     (if isMaximizing then
        (case alphaBetaMax (minimaxChild b depth currentTurn aiRole goatsPlaced goatsCaptured False)
                (survivingCandidates previousMove moves) alpha beta MinusInfinity of
           Finite v \<Rightarrow> v | _ \<Rightarrow> - 10000)
      else
        (case alphaBetaMin (minimaxChild b depth currentTurn aiRole goatsPlaced goatsCaptured True)
                (survivingCandidates previousMove moves) alpha beta PlusInfinity of
           Finite v \<Rightarrow> v | _ \<Rightarrow> 10000)) \<and>
     (\<forall>move. survivingCandidates previousMove [move] = [move]) \<and>
     (\<forall>move \<in> set moves.
        move \<in> set (survivingCandidates previousMove moves) \<longleftrightarrow>
          \<not> (swapsPrevious previousMove move \<and> 1 < length moves))"
proof -
  have "\<forall>move \<in> set moves.
        move \<in> set (survivingCandidates previousMove moves) \<longleftrightarrow>
          \<not> (swapsPrevious previousMove move \<and> 1 < length moves)"
    by (simp add: survivingCandidates_filter repetitionSkip_iff)
  moreover have "\<forall>move. survivingCandidates previousMove [move] = [move]"
    by (simp add: survivingCandidates_def)
  ultimately show ?thesis
    unfolding minimax_unfold [OF assms] maxLoop_filter minLoop_filter
      survivingCandidates_filter [symmetric]
    by simp
qed


lemma minimax_leaf:
  assumes "\<not> gameOver (checkWinCondition b goatsCaptured
                (if isMaximizing then aiRole else (if aiRole = Tiger then Goat else Tiger)))"
  shows "minimax b 0 alpha beta isMaximizing aiRole goatsPlaced goatsCaptured previousMove =
     evaluatePosition b aiRole goatsCaptured goatsPlaced"
  by (subst minimax.simps) (use assms in \<open>simp add: Let_def\<close>)

lemma ADJACENCY_more_values:
  "ADJACENCY 5 = [4, 10]" "ADJACENCY 9 = [8, 10, 4, 14]" "ADJACENCY 10 = [5, 9]"
  by (simp_all add: ADJACENCY_def ADJACENCY_table_def)

lemma sole_candidate_moves:
  "sortMovesForPruning (getAllPossibleMoves [(5, Goat), (10, Tiger)] Goat 18) [(5, Goat), (10, Tiger)] Goat =
     [\<lparr>move_from = Some 5, move_to = 4\<rparr>]"
  by (simp add: sortMovesForPruning_def getAllPossibleMoves_def getValidMoves_def GOATS_TOTAL_def
      ADJACENCY_more_values)

lemma sole_candidate_not_over:
  "\<not> gameOver (checkWinCondition [(5, Goat), (10, Tiger)] 0 Goat)"
  "\<not> gameOver (checkWinCondition [(4, Goat), (10, Tiger)] 0 Tiger)"
  by (simp_all add: checkWinCondition_def GOATS_TO_WIN_def getValidMoves_def GOATS_TOTAL_def
      ADJACENCY_more_values jumpStep_def JUMP_PATHS_def)

lemma sole_candidate_leaf:
  "evaluatePosition [(4, Goat), (10, Tiger)] Goat 0 18 = - 100"
  by (simp add: evaluatePosition_def tigerStep_def getValidMoves_def GOATS_TOTAL_def
      ADJACENCY_more_values ADJACENCY_values jumpStep_def JUMP_PATHS_def)

lemma two_candidates_moves:
  "sortMovesForPruning (getAllPossibleMoves [(5, Goat), (9, Tiger)] Goat 18) [(5, Goat), (9, Tiger)] Goat =
     [\<lparr>move_from = Some 5, move_to = 4\<rparr>, \<lparr>move_from = Some 5, move_to = 10\<rparr>]"
  by (simp add: sortMovesForPruning_def getAllPossibleMoves_def getValidMoves_def GOATS_TOTAL_def
      ADJACENCY_more_values compareMoves_def centerScore_def)

lemma two_candidates_not_over:
  "\<not> gameOver (checkWinCondition [(5, Goat), (9, Tiger)] 0 Goat)"
  "\<not> gameOver (checkWinCondition [(4, Goat), (9, Tiger)] 0 Tiger)"
  by (simp_all add: checkWinCondition_def GOATS_TO_WIN_def getValidMoves_def GOATS_TOTAL_def
      ADJACENCY_more_values jumpStep_def JUMP_PATHS_def)

lemma two_candidates_leaf:
  "evaluatePosition [(4, Goat), (9, Tiger)] Goat 0 18 = - 1200"
  by (simp add: evaluatePosition_def tigerStep_def getValidMoves_def GOATS_TOTAL_def
      ADJACENCY_more_values ADJACENCY_values jumpStep_def JUMP_PATHS_def)

theorem minimax_skips_reverse_move_witness:
  "minimax [(5, Goat), (10, Tiger)] 1 MinusInfinity PlusInfinity True Goat 18 0
     (Some \<lparr>move_from = Some 4, move_to = 5\<rparr>) = - 100 \<and>
   minimax [(5, Goat), (9, Tiger)] 1 MinusInfinity PlusInfinity True Goat 18 0
     (Some \<lparr>move_from = Some 10, move_to = 5\<rparr>) = - 1200"
proof -
  have one: "minimax [(5, Goat), (10, Tiger)] 1 MinusInfinity PlusInfinity True Goat 18 0
     (Some \<lparr>move_from = Some 4, move_to = 5\<rparr>) = - 100"
    using minimax_skips_reverse_move
      [of Goat True Goat "[(5, Goat), (10, Tiger)]" 0 1 "[\<lparr>move_from = Some 5, move_to = 4\<rparr>]" 18
        MinusInfinity PlusInfinity "Some \<lparr>move_from = Some 4, move_to = 5\<rparr>"]
    by (simp add: sole_candidate_moves sole_candidate_not_over survivingCandidates_def
        minimaxChild_def simulateMove_def board_delete_def minimax_leaf sole_candidate_leaf
        ext_max_def ext_le.simps)
  have two: "minimax [(5, Goat), (9, Tiger)] 1 MinusInfinity PlusInfinity True Goat 18 0
     (Some \<lparr>move_from = Some 10, move_to = 5\<rparr>) = - 1200"
    using minimax_skips_reverse_move
      [of Goat True Goat "[(5, Goat), (9, Tiger)]" 0 1
        "[\<lparr>move_from = Some 5, move_to = 4\<rparr>, \<lparr>move_from = Some 5, move_to = 10\<rparr>]" 18
        MinusInfinity PlusInfinity "Some \<lparr>move_from = Some 10, move_to = 5\<rparr>"]
    by (simp add: two_candidates_moves two_candidates_not_over survivingCandidates_def
        swapsPrevious_def
        minimaxChild_def simulateMove_def board_delete_def minimax_leaf two_candidates_leaf
        ext_max_def ext_le.simps)
  from one two show ?thesis by simp
qed

section \<open>Search: the fallback of the loops\<close>

lemma jumpStep_filter:
  "jumpStep nid b p [] =
     filter (\<lambda>n. map_of b (fst (snd p)) = Some Goat \<and> map_of b n = None)
       ((\<lambda>(start, middle, end').
           (if start = nid then [end'] else []) @ (if end' = nid then [start] else [])) p)"
  by (cases p) (auto simp: jumpStep_def Let_def)

lemma NODES_static_distinct: "\<forall>nid \<in> set NODES. distinct (ADJACENCY nid @ jumpEnds nid)"
  by code_simp

lemma ADJACENCY_table_NODES: "map fst ADJACENCY_table = NODES"
  by (simp add: ADJACENCY_table_def NODES_def)

lemma JUMP_PATHS_in_NODES: "\<forall>(s, m, e) \<in> set JUMP_PATHS. s \<in> set NODES \<and> e \<in> set NODES"
  by code_simp

lemma outside_static: 
  assumes "nid \<notin> set NODES"
  shows "ADJACENCY nid = []" and "jumpEnds nid = []"
proof -
  from assms have "nid \<notin> fst ` set ADJACENCY_table"
    using ADJACENCY_table_NODES by (metis set_map)
  then have "map_of ADJACENCY_table nid = None"
    by (simp add: map_of_eq_None_iff)
  then show "ADJACENCY nid = []"
    by (simp add: ADJACENCY_def)
  have "\<forall>(s, m, e) \<in> set JUMP_PATHS. s \<noteq> nid \<and> e \<noteq> nid"
    using JUMP_PATHS_in_NODES assms by fastforce
  then show "jumpEnds nid = []"
    unfolding jumpEnds_def by (fastforce simp: concat_eq_Nil_conv)
qed

lemma static_distinct: "distinct (ADJACENCY nid @ jumpEnds nid)"
proof (cases "nid \<in> set NODES")
  case True
  with NODES_static_distinct show ?thesis by blast
next
  case False
  from outside_static [OF False] show ?thesis by simp
qed

lemma set_concat_filter_blocks:
  "set (concat (map (\<lambda>p. filter (Q p) (h p)) ps)) \<subseteq> set (concat (map h ps))"
  by auto

lemma distinct_concat_filter_blocks:
  "distinct (concat (map h ps)) \<Longrightarrow> distinct (concat (map (\<lambda>p. filter (Q p) (h p)) ps))"
proof (induction ps)
  case Nil
  then show ?case by simp
next
  case (Cons p ps)
  from Cons.prems have d1: "distinct (h p)" and d2: "distinct (concat (map h ps))"
    and dj: "set (h p) \<inter> set (concat (map h ps)) = {}"
    by simp_all
  have "set (filter (Q p) (h p)) \<inter> set (concat (map (\<lambda>p. filter (Q p) (h p)) ps)) = {}"
    using dj set_concat_filter_blocks [of Q h ps] by auto
  with d1 Cons.IH [OF d2] show ?case by simp
qed

lemma getValidMoves_distinct: "distinct (getValidMoves nid turn b goatsPlaced)"
proof (cases turn)
  case Goat
  then show ?thesis
    by (simp add: getValidMoves_def ADJACENCY_distinct)
next
  case Tiger
  let ?h = "\<lambda>(start, middle, end').
      (if start = nid then [end'] else []) @ (if end' = nid then [start] else [])"
  let ?Q = "\<lambda>p n. map_of b (fst (snd p)) = Some Goat \<and> map_of b n = None"
  let ?dyn = "concat (map (\<lambda>p. filter (?Q p) (?h p)) JUMP_PATHS)"
  have stat: "distinct (ADJACENCY nid @ concat (map ?h JUMP_PATHS))"
    using static_distinct [of nid] by (simp add: jumpEnds_def)
  from stat have sd: "distinct (concat (map ?h JUMP_PATHS))"
    and dj: "set (ADJACENCY nid) \<inter> set (concat (map ?h JUMP_PATHS)) = {}"
    by simp_all
  have dd: "distinct ?dyn"
    using sd by (rule distinct_concat_filter_blocks)
  have sub: "set ?dyn \<subseteq> set (concat (map ?h JUMP_PATHS))"
    by (rule set_concat_filter_blocks)
  have sub': "set (filter (\<lambda>n. map_of b n = None) (ADJACENCY nid)) \<subseteq> set (ADJACENCY nid)"
    by (rule filter_is_subset)
  have "set (filter (\<lambda>n. map_of b n = None) (ADJACENCY nid)) \<inter> set ?dyn = {}"
    using dj sub sub' by blast
  with dd have "distinct (filter (\<lambda>n. map_of b n = None) (ADJACENCY nid) @ ?dyn)"
    by (simp only: distinct_append distinct_filter ADJACENCY_distinct simp_thms)
  moreover have "concat (map (\<lambda>p. jumpStep nid b p []) JUMP_PATHS) = ?dyn"
    by (simp only: jumpStep_filter)
  ultimately show ?thesis
    by (simp add: Tiger getValidMoves_tiger)
qed

lemma distinct_moves_of_pieces:
  "distinct ps \<Longrightarrow> (\<And>f. distinct (g f)) \<Longrightarrow>
     distinct (concat (map (\<lambda>f. map (\<lambda>t. \<lparr>move_from = Some f, move_to = t\<rparr>) (g f)) ps))"
proof (induction ps)
  case Nil
  then show ?case by simp
next
  case (Cons f ps)
  have inj: "inj_on (\<lambda>t. \<lparr>move_from = Some f, move_to = t\<rparr>) (set (g f))"
    by (simp add: inj_on_def)
  have "distinct (map (\<lambda>t. \<lparr>move_from = Some f, move_to = t\<rparr>) (g f))"
    using Cons.prems(2) inj by (simp add: distinct_map)
  moreover have "distinct (concat (map (\<lambda>f. map (\<lambda>t. \<lparr>move_from = Some f, move_to = t\<rparr>) (g f)) ps))"
    using Cons.prems by (intro Cons.IH) simp_all
  moreover have "set (map (\<lambda>t. \<lparr>move_from = Some f, move_to = t\<rparr>) (g f)) \<inter>
      set (concat (map (\<lambda>f. map (\<lambda>t. \<lparr>move_from = Some f, move_to = t\<rparr>) (g f)) ps)) = {}"
    using Cons.prems(1) by auto
  ultimately show ?case by simp
qed

lemma getAllPossibleMoves_distinct:
  assumes "wf_board b"
  shows "distinct (getAllPossibleMoves b role goatsPlaced)"
proof (cases "role = Goat \<and> goatsPlaced < GOATS_TOTAL")
  case True
  have "distinct NODES" by (simp add: NODES_def)
  then have "distinct (map (\<lambda>n. \<lparr>move_from = None, move_to = n\<rparr>) (filter (\<lambda>n. map_of b n = None) NODES))"
    by (simp add: distinct_map inj_on_def)
  with True show ?thesis by (simp add: getAllPossibleMoves_def)
next
  case False
  have "distinct (filter (\<lambda>k. map_of b k = Some role) (map fst b))"
    using wf_board_distinct [OF assms] by simp
  then have "distinct (concat (map (\<lambda>f. map (\<lambda>t. \<lparr>move_from = Some f, move_to = t\<rparr>)
      (getValidMoves f role b goatsPlaced)) (filter (\<lambda>k. map_of b k = Some role) (map fst b))))"
    by (rule distinct_moves_of_pieces) (rule getValidMoves_distinct)
  then show ?thesis
    by (simp only: getAllPossibleMoves_def Let_def if_not_P [OF False])
qed

lemma set_insertMove: "set (insertMove cmp x ys) = insert x (set ys)"
  by (induction ys) auto

lemma distinct_insertMove: "distinct (insertMove cmp x ys) \<longleftrightarrow> x \<notin> set ys \<and> distinct ys"
  by (induction ys) (auto simp: set_insertMove)

lemma length_insertMove: "length (insertMove cmp x ys) = Suc (length ys)"
  by (induction ys) auto

lemma set_sortMovesForPruning: "set (sortMovesForPruning moves b role) = set moves"
  by (induction moves) (simp_all add: sortMovesForPruning_def set_insertMove)

lemma distinct_sortMovesForPruning:
  "distinct moves \<Longrightarrow> distinct (sortMovesForPruning moves b role)"
proof (induction moves)
  case Nil
  then show ?case by (simp add: sortMovesForPruning_def)
next
  case (Cons m moves)
  then have "m \<notin> set (sortMovesForPruning moves b role)"
    and "distinct (sortMovesForPruning moves b role)"
    by (simp_all add: set_sortMovesForPruning)
  then show ?case
    using distinct_insertMove [of "compareMoves b role" m "sortMovesForPruning moves b role"]
    by (simp add: sortMovesForPruning_def)
qed

lemma length_sortMovesForPruning: "length (sortMovesForPruning moves b role) = length moves"
  by (induction moves) (simp_all add: sortMovesForPruning_def length_insertMove)

lemma swapsPrevious_unique:
  "swapsPrevious previousMove x \<Longrightarrow> swapsPrevious previousMove y \<Longrightarrow> x = y"
  by (cases previousMove) (auto simp: swapsPrevious_def)

lemma distinct_filter_unique:
  "distinct xs \<Longrightarrow> (\<And>x y. P x \<Longrightarrow> P y \<Longrightarrow> x = y) \<Longrightarrow> length (filter P xs) \<le> 1"
proof (induction xs)
  case Nil
  then show ?case by simp
next
  case (Cons x xs)
  show ?case
  proof (cases "P x")
    case True
    have "filter P xs = []"
    proof (rule ccontr)
      assume "filter P xs \<noteq> []"
      then obtain y where "y \<in> set xs" "P y"
        by (auto simp: filter_empty_conv)
      with True Cons.prems show False by auto
    qed
    with True show ?thesis by simp
  next
    case False
    with Cons show ?thesis by simp
  qed
qed

lemma survivingCandidates_nonempty:
  assumes "distinct moves" and "moves \<noteq> []"
  shows "survivingCandidates previousMove moves \<noteq> []"
proof (cases "length moves = 1")
  case True
  then obtain m where "moves = [m]" by (cases moves) auto
  then show ?thesis by (simp add: survivingCandidates_def)
next
  case False
  have one: "length (filter (swapsPrevious previousMove) moves) \<le> 1"
    using assms(1) swapsPrevious_unique by (rule distinct_filter_unique)
  from assms(2) have "length moves \<noteq> 0" by simp
  with False have "2 \<le> length moves" by linarith
  with one sum_length_filter_compl [of "swapsPrevious previousMove" moves]
  have "length (filter (\<lambda>m. \<not> swapsPrevious previousMove m) moves) \<noteq> 0"
    by linarith
  moreover have "survivingCandidates previousMove moves =
      filter (\<lambda>m. \<not> swapsPrevious previousMove m) moves"
    using False unfolding survivingCandidates_def
    by (intro filter_cong refl) auto
  ultimately show ?thesis by auto
qed

lemma alphaBetaMax_finite:
  "(xs \<noteq> [] \<or> (\<exists>v. best = Finite v)) \<Longrightarrow> best \<noteq> PlusInfinity \<Longrightarrow>
     \<exists>v. alphaBetaMax child xs alpha beta best = Finite v"
proof (induction xs arbitrary: alpha best)
  case Nil
  then show ?case by simp
next
  case (Cons x xs)
  let ?v = "child x alpha beta"
  have "\<exists>w. ext_max best (Finite ?v) = Finite w"
    using Cons.prems(2) by (cases best) (auto simp: ext_max_def)
  then obtain w where w: "ext_max best (Finite ?v) = Finite w" ..
  have "\<exists>v. alphaBetaMax child xs (ext_max alpha (Finite ?v)) beta (Finite w) = Finite v"
    by (rule Cons.IH) simp_all
  with w show ?case by (simp add: Let_def)
qed

lemma alphaBetaMin_finite:
  "(xs \<noteq> [] \<or> (\<exists>v. best = Finite v)) \<Longrightarrow> best \<noteq> MinusInfinity \<Longrightarrow>
     \<exists>v. alphaBetaMin child xs alpha beta best = Finite v"
proof (induction xs arbitrary: beta best)
  case Nil
  then show ?case by simp
next
  case (Cons x xs)
  let ?v = "child x alpha beta"
  have "\<exists>w. ext_min best (Finite ?v) = Finite w"
    using Cons.prems(2) by (cases best) (auto simp: ext_min_def)
  then obtain w where w: "ext_min best (Finite ?v) = Finite w" ..
  have "\<exists>v. alphaBetaMin child xs alpha (ext_min beta (Finite ?v)) (Finite w) = Finite v"
    by (rule Cons.IH) simp_all
  with w show ?case by (simp add: Let_def)
qed

lemma simulateMove_wf: "wf_board b \<Longrightarrow> wf_board (fst (simulateMove b move role c))"
  by (auto simp: simulateMove_def Let_def wf_board_put wf_board_delete
      split: option.splits prod.splits)

text \<open>
  C10: at a ply of \<^verbatim>\<open>minimax\<close> on a board (an object: its keys are distinct) whose
  candidate list is not empty, \<^verbatim>\<open>getValidMoves\<close> lists no destination twice, at most one
  candidate swaps the previous move, at least one candidate is not skipped, and both
  loops end with a finite \<open>maxEval\<close> (\<open>minEval\<close>): the fallbacks -10000 and 10000 are never
  taken. The boards further down the recursion are objects again.
\<close>

theorem minimax_fallback_unreachable:
  assumes "wf_board b"
    and "moves = sortMovesForPruning (getAllPossibleMoves b turn goatsPlaced) b turn"
    and "moves \<noteq> []"
  shows "distinct (getValidMoves nid turn b goatsPlaced) \<and>
         length (filter (\<lambda>move. swapsPrevious previousMove move) moves) \<le> 1 \<and>
         (\<exists>move \<in> set moves. \<not> repetitionSkip previousMove (length moves) move) \<and>
         (\<exists>v. maxLoop child previousMove (length moves) moves alpha beta MinusInfinity = Finite v) \<and>
         (\<exists>v. minLoop child previousMove (length moves) moves alpha beta PlusInfinity = Finite v) \<and>
         wf_board (fst (simulateMove b move turn goatsCaptured))"
proof -
  have dist: "distinct moves"
    unfolding assms(2)
    by (intro distinct_sortMovesForPruning getAllPossibleMoves_distinct assms(1))
  have one: "length (filter (\<lambda>move. swapsPrevious previousMove move) moves) \<le> 1"
    using dist swapsPrevious_unique by (rule distinct_filter_unique)
  have surv: "survivingCandidates previousMove moves \<noteq> []"
    by (rule survivingCandidates_nonempty [OF dist assms(3)])
  then have ex: "\<exists>move \<in> set moves. \<not> repetitionSkip previousMove (length moves) move"
    by (auto simp: survivingCandidates_filter filter_empty_conv)
  have mx: "\<exists>v. maxLoop child previousMove (length moves) moves alpha beta MinusInfinity = Finite v"
    unfolding maxLoop_filter survivingCandidates_filter [symmetric]
    using surv by (intro alphaBetaMax_finite) simp_all
  have mn: "\<exists>v. minLoop child previousMove (length moves) moves alpha beta PlusInfinity = Finite v"
    unfolding minLoop_filter survivingCandidates_filter [symmetric]
    using surv by (intro alphaBetaMin_finite) simp_all
  show ?thesis
    using getValidMoves_distinct one ex mx mn simulateMove_wf [OF assms(1)] by simp
qed

theorem minimax_fallback_unreachable_witness:
  "distinct (getValidMoves 5 Goat [(5, Goat), (9, Tiger)] 18) \<and>
   length (filter (\<lambda>move. swapsPrevious (Some \<lparr>move_from = Some 10, move_to = 5\<rparr>) move)
             [\<lparr>move_from = Some 5, move_to = 4\<rparr>, \<lparr>move_from = Some 5, move_to = 10\<rparr>]) \<le> 1 \<and>
   (\<exists>move \<in> set [\<lparr>move_from = Some 5, move_to = 4\<rparr>, \<lparr>move_from = Some 5, move_to = 10\<rparr>].
      \<not> repetitionSkip (Some \<lparr>move_from = Some 10, move_to = 5\<rparr>)
           (length [\<lparr>move_from = Some 5, move_to = 4\<rparr>, \<lparr>move_from = Some 5, move_to = 10\<rparr>]) move) \<and>
   (\<exists>v. maxLoop (\<lambda>move alpha beta. move_to move)
           (Some \<lparr>move_from = Some 10, move_to = 5\<rparr>)
           (length [\<lparr>move_from = Some 5, move_to = 4\<rparr>, \<lparr>move_from = Some 5, move_to = 10\<rparr>])
           [\<lparr>move_from = Some 5, move_to = 4\<rparr>, \<lparr>move_from = Some 5, move_to = 10\<rparr>]
           MinusInfinity PlusInfinity MinusInfinity = Finite v) \<and>
   (\<exists>v. minLoop (\<lambda>move alpha beta. move_to move)
           (Some \<lparr>move_from = Some 10, move_to = 5\<rparr>)
           (length [\<lparr>move_from = Some 5, move_to = 4\<rparr>, \<lparr>move_from = Some 5, move_to = 10\<rparr>])
           [\<lparr>move_from = Some 5, move_to = 4\<rparr>, \<lparr>move_from = Some 5, move_to = 10\<rparr>]
           MinusInfinity PlusInfinity PlusInfinity = Finite v) \<and>
   wf_board (fst (simulateMove [(5, Goat), (9, Tiger)] \<lparr>move_from = Some 5, move_to = 4\<rparr> Goat 0))"
proof -
  have wf: "wf_board [(5, Goat), (9, Tiger)]"
    by (simp add: wf_board_def)
  have moves: "[\<lparr>move_from = Some 5, move_to = 4\<rparr>, \<lparr>move_from = Some 5, move_to = 10\<rparr>] =
      sortMovesForPruning (getAllPossibleMoves [(5, Goat), (9, Tiger)] Goat 18)
        [(5, Goat), (9, Tiger)] Goat"
    by (simp add: two_candidates_moves)
  have ne: "[\<lparr>move_from = Some 5, move_to = 4\<rparr>, \<lparr>move_from = Some 5, move_to = 10\<rparr>] \<noteq> []"
    by simp
  show ?thesis
    by (rule minimax_fallback_unreachable [OF wf moves ne])
qed

end
